theory Spec2Isabelle
  imports Complex_Main "HOL-Library.Log_Nat" "HOL-Library.Word"
begin

section \<open>The snapshot table\<close>

text \<open>
  The module keeps one SQLite table, \<^verbatim>\<open>defi_snapshots\<close>, with an
  \<^verbatim>\<open>INTEGER PRIMARY KEY AUTOINCREMENT\<close> column \<^verbatim>\<open>id\<close> and five
  \<^verbatim>\<open>REAL\<close> columns. A dictionary of balances is a record; a table row extends it
  with the three remaining columns. The column \<^verbatim>\<open>id\<close> is called \<open>row_id\<close>
  here, since \<open>id\<close> is the identity function of HOL.

  A Python float or an SQLite real is modelled by its value, a rational. The float
  operations of \<^verbatim>\<open>get_balances\<close> round as binary64 arithmetic does (see below); the
  aggregates of SQLite are taken exactly.
\<close>

record balances =
  morpho :: rat
  aave :: rat
  euler :: rat
  debt :: rat
  net :: rat

record snapshot = balances +
  row_id :: int
  timestamp :: string
  address :: string

text \<open>
  The table is the list of its rows in rowid order, together with the counter that
  SQLite keeps in \<^verbatim>\<open>sqlite_sequence\<close> for an \<^verbatim>\<open>AUTOINCREMENT\<close> key: the
  largest rowid ever handed out.
\<close>

record store =
  rows :: "snapshot list"
  seq :: int

definition LIMIT_REGISTROS :: int where
  "LIMIT_REGISTROS = 10000"

definition empty_store :: store where
  "empty_store = \<lparr>rows = [], seq = 0\<rparr>"

text \<open>A table state is well formed when the primary key increases along the list.\<close>

definition store_ok :: "store \<Rightarrow> bool" where
  "store_ok st = sorted_wrt (<) (map row_id (rows st))"

subsection \<open>The SQL fragments the module uses\<close>

text \<open>\<^verbatim>\<open>ORDER BY id DESC\<close>.\<close>

definition order_by_id_desc :: "snapshot list \<Rightarrow> snapshot list" where
  "order_by_id_desc rs = rev (sort_key row_id rs)"

text \<open>\<^verbatim>\<open>LIMIT n\<close>; SQLite reads a negative limit as no limit.\<close>

definition sql_limit :: "int \<Rightarrow> 'a list \<Rightarrow> 'a list" where
  "sql_limit n xs = (if n < 0 then xs else take (nat n) xs)"

text \<open>\<^verbatim>\<open>cursor.fetchone()\<close>: the first row of the result, or \<^verbatim>\<open>None\<close>.\<close>

definition fetchone :: "'a list \<Rightarrow> 'a option" where
  "fetchone res = (case res of [] \<Rightarrow> None | r # _ \<Rightarrow> Some r)"

text \<open>
  The aggregates \<^verbatim>\<open>AVG\<close>, \<^verbatim>\<open>MIN\<close> and \<^verbatim>\<open>MAX\<close> are \<^verbatim>\<open>NULL\<close> over no rows.
\<close>

definition sql_avg :: "rat list \<Rightarrow> rat option" where
  "sql_avg xs = (if xs = [] then None else Some (sum_list xs / of_nat (length xs)))"

definition sql_min :: "rat list \<Rightarrow> rat option" where
  "sql_min xs = (case xs of [] \<Rightarrow> None | x # ys \<Rightarrow> Some (fold min ys x))"

definition sql_max :: "rat list \<Rightarrow> rat option" where
  "sql_max xs = (case xs of [] \<Rightarrow> None | x # ys \<Rightarrow> Some (fold max ys x))"

subsection \<open>Writing: \<^verbatim>\<open>save_snapshot\<close> and \<^verbatim>\<open>cleanup_database\<close>\<close>

text \<open>
  An \<^verbatim>\<open>AUTOINCREMENT\<close> key is one more than the largest rowid that ever existed in
  the table: the larger of the stored counter and the rowids present.
\<close>

definition next_row_id :: "store \<Rightarrow> int" where
  "next_row_id st = fold max (map row_id (rows st)) (seq st) + 1"

text \<open>
  \<^verbatim>\<open>save_snapshot(address, balances)\<close>. The time stamp
  \<^verbatim>\<open>datetime.utcnow().isoformat()\<close> is an input of the model.
\<close>

definition save_snapshot :: "string \<Rightarrow> string \<Rightarrow> balances \<Rightarrow> store \<Rightarrow> store" where
  "save_snapshot now addr b st =
     (let i = next_row_id st
      in \<lparr>rows = rows st @
            [\<lparr>morpho = morpho b, aave = aave b, euler = euler b, debt = debt b, net = net b,
              row_id = i, timestamp = now, address = addr\<rparr>],
          seq = i\<rparr>)"

text \<open>A run of appends, each with its own time stamp, address and balances.\<close>

fun save_all :: "(string \<times> string \<times> balances) list \<Rightarrow> store \<Rightarrow> store" where
  "save_all [] st = st"
| "save_all ((now, addr, b) # xs) st = save_all xs (save_snapshot now addr b st)"

text \<open>
  \<^verbatim>\<open>cleanup_database(limit)\<close>: count the rows and, when there are more than
  \<^verbatim>\<open>limit\<close>, delete every row whose id is not among the first \<^verbatim>\<open>limit\<close> ids in
  descending order.
\<close>

definition cleanup_database :: "int \<Rightarrow> store \<Rightarrow> store" where
  "cleanup_database limit st =
     (let count = int (length (rows st))
      in if count > limit
         then let keep = map row_id (sql_limit limit (order_by_id_desc (rows st)))
              in st\<lparr>rows := filter (\<lambda>r. \<not> (row_id r \<notin> set keep)) (rows st)\<rparr>
         else st)"

subsection \<open>Reading: the three routes\<close>

text \<open>A response is the JSON body with status 200, or the error body with status 404.\<close>

datatype 'a response = Http200 'a | Http404 string

datatype py_error = IndexError | ZeroDivisionError | TypeError | RecursionError

text \<open>
  \<^verbatim>\<open>latest_snapshot()\<close>. A row of eight columns is true in Python. The error message
  is written without its accent.
\<close>

definition latest_snapshot :: "store \<Rightarrow> snapshot response" where
  "latest_snapshot st =
     (case fetchone (sql_limit 1 (order_by_id_desc (rows st))) of
        Some row \<Rightarrow> Http200 row
      | None \<Rightarrow> Http404 ''No hay datos aun'')"

text \<open>\<^verbatim>\<open>history()\<close>.\<close>

definition history :: "store \<Rightarrow> snapshot list" where
  "history st = sql_limit 50 (order_by_id_desc (rows st))"

text \<open>
  \<^verbatim>\<open>stats()\<close>. An aggregate query without \<^verbatim>\<open>GROUP BY\<close> has exactly one result
  row, whatever the table holds, and a tuple of three is true in Python whatever its
  components are. The test \<^verbatim>\<open>if avg_net\<close> fails for \<^verbatim>\<open>None\<close> and for zero.
  Subtracting \<^verbatim>\<open>None\<close> would raise \<^verbatim>\<open>TypeError\<close>.
\<close>

record stats_json =
  average_net :: "rat option"
  min_net :: "rat option"
  max_net :: "rat option"
  variation :: rat

definition truthy :: "rat option \<Rightarrow> bool" where
  "truthy v = (case v of None \<Rightarrow> False | Some x \<Rightarrow> x \<noteq> 0)"

definition stats_window :: "store \<Rightarrow> rat list" where
  "stats_window st = map net (sql_limit 1000 (order_by_id_desc (rows st)))"

definition stats :: "store \<Rightarrow> py_error + stats_json response" where
  "stats st =
     (let w = stats_window st;
          result = [(sql_avg w, sql_min w, sql_max w)]
      in case fetchone result of
           Some (avg_net, mn, mx) \<Rightarrow>
             (if truthy avg_net
              then (case (mx, mn) of
                      (Some a, Some b) \<Rightarrow>
                        Inr (Http200 \<lparr>average_net = avg_net, min_net = mn, max_net = mx,
                                       variation = a - b\<rparr>)
                    | _ \<Rightarrow> Inl TypeError)
              else Inr (Http200 \<lparr>average_net = avg_net, min_net = mn, max_net = mx,
                                  variation = 0\<rparr>))
         | None \<Rightarrow> Inr (Http404 ''No hay datos suficientes''))"

subsection \<open>What a row carries, and sample inputs\<close>

text \<open>The three things \<^verbatim>\<open>save_snapshot\<close> is given for a row: time stamp, address, balances.\<close>

definition payload :: "snapshot \<Rightarrow> string \<times> string \<times> balances" where
  "payload r = (timestamp r, address r,
     \<lparr>morpho = morpho r, aave = aave r, euler = euler r, debt = debt r, net = net r\<rparr>)"

text \<open>Three polls of an address that holds nothing.\<close>

definition zero_balances :: balances where
  "zero_balances = \<lparr>morpho = 0, aave = 0, euler = 0, debt = 0, net = 0\<rparr>"

definition three_polls :: "(string \<times> string \<times> balances) list" where
  "three_polls = [(''t1'', ''0x00'', zero_balances), (''t2'', ''0x00'', zero_balances),
                  (''t3'', ''0x00'', zero_balances)]"

text \<open>
  Fifty-one polls, one more than \<^verbatim>\<open>history\<close> returns.
\<close>

definition fifty_one_polls :: "(string \<times> string \<times> balances) list" where
  "fifty_one_polls = replicate 51 (''t'', ''0x00'', zero_balances)"

text \<open>
  Two polls whose net values are \<open>-1\<close> (a debt of one dollar) and \<open>1\<close>: the
  average of the window is zero.
\<close>

definition loss_then_gain :: "(string \<times> string \<times> balances) list" where
  "loss_then_gain =
     [(''t1'', ''0x00'', \<lparr>morpho = 0, aave = 0, euler = 0, debt = 1, net = - 1\<rparr>),
      (''t2'', ''0x00'', \<lparr>morpho = 1, aave = 0, euler = 0, debt = 0, net = 1\<rparr>)]"

section \<open>Binary64 arithmetic\<close>

text \<open>
  Python's \<^verbatim>\<open>float\<close> is IEEE binary64. Each operation returns the exact result
  rounded to the nearest number with a significand of 53 bits, a tie going to the even
  significand; below \<open>2\<^sup>-\<^sup>1\<^sup>0\<^sup>2\<^sup>2\<close> the numbers are spaced \<open>2\<^sup>-\<^sup>1\<^sup>0\<^sup>7\<^sup>4\<close> apart. Results
  of magnitude \<open>2\<^sup>1\<^sup>0\<^sup>2\<^sup>4\<close> or more, which binary64 replaces by an infinity, do not
  arise here: the operands are quotients and sums of at most four 256-bit integers.
\<close>

text \<open>Rounding to the nearest integer, a tie going to the even one.\<close>

definition round_half_even :: "rat \<Rightarrow> int" where
  "round_half_even y =
     (let f = \<lfloor>y\<rfloor>; d = y - of_int f
      in if d < 1 / 2 then f
         else if 1 / 2 < d then f + 1
         else if even f then f else f + 1)"

text \<open>The exponent of a positive number: the \<open>e\<close> with \<open>2\<^sup>e \<le> x < 2\<^sup>e\<^sup>+\<^sup>1\<close>.\<close>

definition ilog2 :: "rat \<Rightarrow> int" where
  "ilog2 x = (if 1 \<le> x then bitlen \<lfloor>x\<rfloor> - 1 else - bitlen (\<lceil>1 / x\<rceil> - 1))"

text \<open>The binary64 number nearest to a rational.\<close>

definition binary64 :: "rat \<Rightarrow> rat" where
  "binary64 x =
     (if x = 0 then 0
      else let e = max (ilog2 \<bar>x\<bar>) (- 1022);
               q = 2 powi (e - 52)
           in sgn x * of_int (round_half_even (\<bar>x\<bar> / q)) * q)"

text \<open>
  The conversion of an \<^verbatim>\<open>int\<close> that \<^verbatim>\<open>/\<close> applies to its left operand, and the three
  operations the program uses.
\<close>

definition py_float :: "int \<Rightarrow> rat" where
  "py_float n = binary64 (of_int n)"

definition float_div :: "rat \<Rightarrow> rat \<Rightarrow> rat" where
  "float_div a b = binary64 (a / b)"

definition float_add :: "rat \<Rightarrow> rat \<Rightarrow> rat" where
  "float_add a b = binary64 (a + b)"

definition float_sub :: "rat \<Rightarrow> rat \<Rightarrow> rat" where
  "float_sub a b = binary64 (a - b)"

section \<open>Endpoint failover and balance aggregation\<close>

subsection \<open>Configuration\<close>

text \<open>
  \<^verbatim>\<open>USER\<close> is the default of the environment variable. The four contract addresses
  are the literals of the source; \<^verbatim>\<open>Web3.to_checksum_address\<close> only changes the case
  of their letters.
\<close>

definition USER :: string where
  "USER = ''0x0000000000000000000000000000000000000000''"

definition RPC_ENDPOINTS :: "string list" where
  "RPC_ENDPOINTS =
     [''https://arbitrum-one-rpc.publicnode.com'',
      ''https://arb1.arbitrum.io/rpc'',
      ''https://1rpc.io/arb'',
      ''https://rpc.ankr.com/arbitrum'',
      ''https://arbitrum.meowrpc.com'']"

definition MORPHO_DEFAULT :: string where
  "MORPHO_DEFAULT = ''0x7e97fa6893871A2751B5fE961978DCCb2c201E65''"

definition AAVE_USDC :: string where
  "AAVE_USDC = ''0x724dc807b04555b71ed48a6896b6f41593b8c637''"

definition AAVE_DEBT :: string where
  "AAVE_DEBT = ''0xf611aeb5013fd2c0511c9cd55c7dc5c1140741a6''"

definition EULER_USDC_EARN :: string where
  "EULER_USDC_EARN = ''0xe4783824593a50Bfe9dc873204CEc171ebC62dE0''"

subsection \<open>The node, the globals and the trace\<close>

text \<open>
  \<^verbatim>\<open>ERC20_ABI\<close> declares the argument of \<^verbatim>\<open>convertToAssets\<close> and the output of both
  functions as \<^verbatim>\<open>uint256\<close>: integers of 256 bits.
\<close>

type_synonym uint256 = "256 word"

text \<open>
  A read is \<^verbatim>\<open>contract.functions.balanceOf(account).call()\<close> or
  \<^verbatim>\<open>contract.functions.convertToAssets(shares).call()\<close>; the first component is the
  contract address. The program's effects are recorded as a trace: each read with the
  URL it was sent to, and each \<^verbatim>\<open>time.sleep\<close> with its seconds.
\<close>

datatype request = BalanceOf string string | ConvertToAssets string uint256

datatype event = Read string request | Sleep nat

text \<open>
  The module's globals \<^verbatim>\<open>current_rpc_index\<close> and \<^verbatim>\<open>provider\<close> (the provider is
  identified with the URL it was built from), and the trace so far.
\<close>

record state =
  current_rpc_index :: nat
  provider :: string
  trace :: "event list"

text \<open>
  The outside world: what the node behind a URL answers to a read issued after a given
  number of earlier events. \<open>None\<close> stands for any exception raised by the call
  (timeout, malformed response, node error).
\<close>

type_synonym chain = "nat \<Rightarrow> string \<Rightarrow> request \<Rightarrow> uint256 option"

definition initial_state :: state where
  "initial_state = \<lparr>current_rpc_index = 0, provider = RPC_ENDPOINTS ! 0, trace = []\<rparr>"

subsection \<open>\<^verbatim>\<open>switch_rpc\<close>\<close>

text \<open>
  The list of endpoints is a parameter, so that the function can be stated for any pool;
  the program's pool is \<open>RPC_ENDPOINTS\<close>. Python's \<^verbatim>\<open>%\<close> raises
  \<^verbatim>\<open>ZeroDivisionError\<close> on an empty pool.
\<close>

definition switch_rpc :: "string list \<Rightarrow> state \<Rightarrow> py_error + state" where
  "switch_rpc eps st =
     (if length eps = 0 then Inl ZeroDivisionError
      else let i = (current_rpc_index st + 1) mod length eps
           in Inr (st\<lparr>current_rpc_index := i, provider := eps ! i\<rparr>))"

text \<open>
  \<open>k\<close> consecutive calls.
\<close>

fun switch_rpc_times :: "nat \<Rightarrow> string list \<Rightarrow> state \<Rightarrow> py_error + state" where
  "switch_rpc_times 0 eps st = Inr st"
| "switch_rpc_times (Suc k) eps st =
     (case switch_rpc eps st of Inl e \<Rightarrow> Inl e | Inr st' \<Rightarrow> switch_rpc_times k eps st')"

subsection \<open>\<^verbatim>\<open>get_balances\<close>\<close>

text \<open>
  One \<^verbatim>\<open>.call()\<close>: the node answers, and the read is appended to the trace.
\<close>

definition call :: "chain \<Rightarrow> request \<Rightarrow> state \<Rightarrow> uint256 option \<times> state" where
  "call chain req st =
     (chain (length (trace st)) (provider st) req,
      st\<lparr>trace := trace st @ [Read (provider st) req]\<rparr>)"

text \<open>
  The \<^verbatim>\<open>try\<close> block. \<^verbatim>\<open>Web3.to_checksum_address\<close> is a library function and a
  parameter here: \<open>None\<close> when it raises. The block stops at the first statement that
  raises. Its result is the value bound to \<^verbatim>\<open>user_address\<close> on exit (the handler
  passes it to the retry), the dictionary if the block reached \<^verbatim>\<open>return\<close>, and the
  state. The literal \<^verbatim>\<open>1e6\<close> is the float 1000000; an integer of 256 bits is far below
  the size at which its conversion to a float raises \<^verbatim>\<open>OverflowError\<close>.
\<close>

definition try_block ::
  "(string \<Rightarrow> string option) \<Rightarrow> chain \<Rightarrow> string \<Rightarrow> state \<Rightarrow> string \<times> balances option \<times> state"
where
  "try_block to_checksum_address chain user_address st =
     (case to_checksum_address user_address of
        None \<Rightarrow> (user_address, None, st)
      | Some ua \<Rightarrow>
     (case call chain (BalanceOf MORPHO_DEFAULT ua) st of
        (None, s1) \<Rightarrow> (ua, None, s1)
      | (Some morpho_shares, s1) \<Rightarrow>
     (case call chain (ConvertToAssets MORPHO_DEFAULT morpho_shares) s1 of
        (None, s2) \<Rightarrow> (ua, None, s2)
      | (Some morpho_assets, s2) \<Rightarrow>
     (case call chain (BalanceOf AAVE_USDC ua) s2 of
        (None, s3) \<Rightarrow> (ua, None, s3)
      | (Some aave_balance, s3) \<Rightarrow>
     (case call chain (BalanceOf AAVE_DEBT ua) s3 of
        (None, s4) \<Rightarrow> (ua, None, s4)
      | (Some debt_balance, s4) \<Rightarrow>
     (case call chain (BalanceOf EULER_USDC_EARN ua) s4 of
        (None, s5) \<Rightarrow> (ua, None, s5)
      | (Some euler_shares, s5) \<Rightarrow>
     (case call chain (ConvertToAssets EULER_USDC_EARN euler_shares) s5 of
        (None, s6) \<Rightarrow> (ua, None, s6)
      | (Some euler_assets, s6) \<Rightarrow>
          (let morpho_usdc = float_div (py_float (uint morpho_assets)) 1000000;
               aave_usdc = float_div (py_float (uint aave_balance)) 1000000;
               debt_usdc = float_div (py_float (uint debt_balance)) 1000000;
               euler_usdc = float_div (py_float (uint euler_assets)) 1000000;
               net = float_sub (float_add (float_add morpho_usdc aave_usdc) euler_usdc)
                       debt_usdc
           in (ua,
               Some \<lparr>morpho = morpho_usdc, aave = aave_usdc, euler = euler_usdc,
                     debt = debt_usdc, net = net\<rparr>,
               s6)))))))))"

text \<open>
  The interpreter bounds the depth of its call stack (\<^verbatim>\<open>sys.getrecursionlimit()\<close>, 1000
  unless changed), and \<^verbatim>\<open>get_balances\<close> retries by calling itself from its handler. The
  parameter \<open>frames\<close> is the number of frames the limit still allows above the running
  call of \<^verbatim>\<open>get_balances\<close>. A call of a function of this module, \<^verbatim>\<open>switch_rpc()\<close> or
  \<^verbatim>\<open>get_balances(...)\<close>, takes one frame and raises \<^verbatim>\<open>RecursionError\<close> when none is
  left; \<^verbatim>\<open>switch_rpc\<close> gives its frame back when it returns. Calls into libraries are
  taken to need no frame: those they need only make the error come earlier.
\<close>

text \<open>
  The \<^verbatim>\<open>except\<close> block up to the recursive call: the message reads
  \<^verbatim>\<open>RPC_ENDPOINTS[current_rpc_index]\<close>, then \<^verbatim>\<open>switch_rpc()\<close>, then
  \<^verbatim>\<open>time.sleep(2)\<close>.
\<close>

definition except_block :: "nat \<Rightarrow> string list \<Rightarrow> state \<Rightarrow> py_error + state" where
  "except_block frames eps st =
     (if current_rpc_index st < length eps
      then if frames = 0 then Inl RecursionError
           else (case switch_rpc eps st of
                   Inl e \<Rightarrow> Inl e
                 | Inr s \<Rightarrow> Inr (s\<lparr>trace := trace s @ [Sleep 2]\<rparr>))
      else Inl IndexError)"

text \<open>
  \<^verbatim>\<open>get_balances\<close>. An exception raised in the handler is not caught by the
  \<^verbatim>\<open>try\<close> of the same call, nor by the calls below it on the stack, which all sit in
  their handlers: it leaves the outermost call. The recursive call takes the frame that
  \<^verbatim>\<open>switch_rpc\<close> gave back. \<open>Inl e\<close> is an exception that reaches the caller.
\<close>

fun get_balances ::
  "nat \<Rightarrow> (string \<Rightarrow> string option) \<Rightarrow> chain \<Rightarrow> string list \<Rightarrow> string \<Rightarrow> state
     \<Rightarrow> py_error + balances \<times> state"
where
  "get_balances frames to_checksum_address chain eps user_address st =
     (case try_block to_checksum_address chain user_address st of
        (ua, Some b, s) \<Rightarrow> Inr (b, s)
      | (ua, None, s) \<Rightarrow>
          (case except_block frames eps s of
             Inl e \<Rightarrow> Inl e
           | Inr s' \<Rightarrow>
               (case frames of
                  0 \<Rightarrow> Inl RecursionError
                | Suc k \<Rightarrow> get_balances k to_checksum_address chain eps ua s')))"

declare get_balances.simps [simp del]

text \<open>
  The default of \<^verbatim>\<open>sys.getrecursionlimit()\<close>; the frames left above the first call of
  \<^verbatim>\<open>get_balances\<close> are a few less.
\<close>

definition recursion_limit :: nat where
  "recursion_limit = 1000"

text \<open>
  The six reads of one attempt all succeed, with these raw results: the answers of the
  node to the reads issued at times \<open>t\<close> to \<open>t + 5\<close>.
\<close>

definition reads_succeed ::
  "chain \<Rightarrow> string \<Rightarrow> state \<Rightarrow> uint256 \<Rightarrow> uint256 \<Rightarrow> uint256 \<Rightarrow> uint256 \<Rightarrow> uint256 \<Rightarrow> uint256
     \<Rightarrow> bool"
where
  "reads_succeed chain ua st morpho_shares morpho_assets aave_balance debt_balance
       euler_shares euler_assets =
     (let t = length (trace st); p = provider st
      in chain t p (BalanceOf MORPHO_DEFAULT ua) = Some morpho_shares \<and>
         chain (t + 1) p (ConvertToAssets MORPHO_DEFAULT morpho_shares) = Some morpho_assets \<and>
         chain (t + 2) p (BalanceOf AAVE_USDC ua) = Some aave_balance \<and>
         chain (t + 3) p (BalanceOf AAVE_DEBT ua) = Some debt_balance \<and>
         chain (t + 4) p (BalanceOf EULER_USDC_EARN ua) = Some euler_shares \<and>
         chain (t + 5) p (ConvertToAssets EULER_USDC_EARN euler_shares) = Some euler_assets)"

text \<open>
  The events of a successful attempt, in order.
\<close>

definition six_reads :: "string \<Rightarrow> string \<Rightarrow> uint256 \<Rightarrow> uint256 \<Rightarrow> event list" where
  "six_reads p ua morpho_shares euler_shares =
     [Read p (BalanceOf MORPHO_DEFAULT ua),
      Read p (ConvertToAssets MORPHO_DEFAULT morpho_shares),
      Read p (BalanceOf AAVE_USDC ua),
      Read p (BalanceOf AAVE_DEBT ua),
      Read p (BalanceOf EULER_USDC_EARN ua),
      Read p (ConvertToAssets EULER_USDC_EARN euler_shares)]"

text \<open>
  The dictionary computed from the four raw asset and debt results.
\<close>

definition usdc :: "uint256 \<Rightarrow> uint256 \<Rightarrow> uint256 \<Rightarrow> uint256 \<Rightarrow> balances" where
  "usdc morpho_assets aave_balance debt_balance euler_assets =
     \<lparr>morpho = float_div (py_float (uint morpho_assets)) 1000000,
      aave = float_div (py_float (uint aave_balance)) 1000000,
      euler = float_div (py_float (uint euler_assets)) 1000000,
      debt = float_div (py_float (uint debt_balance)) 1000000,
      net = float_sub
              (float_add
                 (float_add (float_div (py_float (uint morpho_assets)) 1000000)
                            (float_div (py_float (uint aave_balance)) 1000000))
                 (float_div (py_float (uint euler_assets)) 1000000))
              (float_div (py_float (uint debt_balance)) 1000000)\<rparr>"

text \<open>
  The number of reads in the trace of a call that returned a dictionary.
\<close>

fun is_read :: "event \<Rightarrow> bool" where
  "is_read (Read p r) = True"
| "is_read (Sleep n) = False"

definition read_count :: "py_error + balances \<times> state \<Rightarrow> nat option" where
  "read_count res =
     (case res of
        Inr (b, s) \<Rightarrow> Some (length (filter is_read (trace s)))
      | Inl e \<Rightarrow> None)"

subsection \<open>Sample nodes and pools\<close>

text \<open>
  A node that holds 100 Morpho shares worth 200000000, an Aave balance of 50000000, a
  debt of 30000000 and 10 Euler shares worth 40000000.
\<close>

definition mock_chain :: chain where
  "mock_chain t url req =
     (case req of
        BalanceOf c a \<Rightarrow>
          (if c = MORPHO_DEFAULT then Some 100
           else if c = AAVE_USDC then Some 50000000
           else if c = AAVE_DEBT then Some 30000000
           else if c = EULER_USDC_EARN then Some 10
           else None)
      | ConvertToAssets c n \<Rightarrow>
          (if c = MORPHO_DEFAULT \<and> n = 100 then Some 200000000
           else if c = EULER_USDC_EARN \<and> n = 10 then Some 40000000
           else None))"

text \<open>
  The same node behind a pool that fails for the first \<open>n\<close> attempts: an attempt that
  fails on its first read takes two events, the read and the sleep.
\<close>

definition flaky :: "nat \<Rightarrow> chain" where
  "flaky n t url req = (if t < 2 * n then None else mock_chain t url req)"

text \<open>
  A pool in which every read fails.
\<close>

definition dead_chain :: chain where
  "dead_chain t url req = None"

text \<open>
  A pool of three endpoints, the first one active.
\<close>

definition abc_pool :: "string list" where
  "abc_pool = [''A'', ''B'', ''C'']"

definition abc_state :: state where
  "abc_state = \<lparr>current_rpc_index = 0, provider = ''A'', trace = []\<rparr>"

section \<open>Properties of the snapshot table\<close>

lemma order_by_id_desc_sorted:
  "sorted_wrt (<) (map row_id rs) \<Longrightarrow> order_by_id_desc rs = rev rs"
proof -
  assume "sorted_wrt (<) (map row_id rs)"
  then have "sorted (map row_id rs)"
    by (rule strict_sorted_imp_sorted)
  then show ?thesis
    by (simp add: order_by_id_desc_def sort_key_id_if_sorted)
qed

lemma filter_drop_keys:
  assumes "distinct (map f xs)"
  shows "filter (\<lambda>x. f x \<in> f ` set (drop k xs)) xs = drop k xs"
proof -
  have d: "distinct (map f (take k xs @ drop k xs))"
    using assms by simp
  have disj: "f ` set (take k xs) \<inter> f ` set (drop k xs) = {}"
    using d unfolding map_append distinct_append by simp
  have a: "filter (\<lambda>x. f x \<in> f ` set (drop k xs)) (take k xs) = []"
    using disj by (auto simp: filter_empty_conv)
  have b: "filter (\<lambda>x. f x \<in> f ` set (drop k xs)) (drop k xs) = drop k xs"
    by (simp add: filter_id_conv)
  have "filter (\<lambda>x. f x \<in> f ` set (drop k xs)) (take k xs @ drop k xs) = drop k xs"
    unfolding filter_append a b by simp
  then show ?thesis by simp
qed

lemma cleanup_rows:
  assumes "store_ok st" "0 \<le> limit" "int (length (rows st)) > limit"
  shows "rows (cleanup_database limit st) = drop (length (rows st) - nat limit) (rows st)"
proof -
  have s: "sorted_wrt (<) (map row_id (rows st))" using assms(1) by (simp add: store_ok_def)
  then have d: "distinct (map row_id (rows st))"
    using strict_sorted_iff by blast
  have "rows (cleanup_database limit st) =
     filter (\<lambda>r. row_id r \<in> row_id ` set (drop (length (rows st) - nat limit) (rows st))) (rows st)"
    using assms(2,3) by (simp add: cleanup_database_def sql_limit_def order_by_id_desc_sorted [OF s] take_rev)
  then show ?thesis using filter_drop_keys [OF d] by simp
qed


lemma fold_max_Max: "fold max xs (a::int) = Max (insert a (set xs))"
  using Max.set_eq_fold [of a xs] by simp

lemma next_row_id_gt: "r \<in> set (rows st) \<Longrightarrow> row_id r < next_row_id st"
  by (simp add: next_row_id_def fold_max_Max less_Suc_eq_le Max_ge_iff zless_add1_eq) 

lemma rows_save_snapshot:
  "rows (save_snapshot now addr b st) = rows st @
     [\<lparr>morpho = morpho b, aave = aave b, euler = euler b, debt = debt b, net = net b,
       row_id = next_row_id st, timestamp = now, address = addr\<rparr>]"
  by (simp add: save_snapshot_def Let_def)

lemma next_row_id_save_snapshot:
  "next_row_id (save_snapshot now addr b st) = next_row_id st + 1"
proof -
  have "Max (insert (next_row_id st) (row_id ` set (rows st))) = next_row_id st"
    by (rule Max_eqI) (auto dest: next_row_id_gt less_imp_le)
  moreover have "seq (save_snapshot now addr b st) = next_row_id st"
    by (simp add: save_snapshot_def Let_def)
  moreover have "next_row_id (save_snapshot now addr b st) =
      fold max (map row_id (rows (save_snapshot now addr b st)))
        (seq (save_snapshot now addr b st)) + 1"
    by (simp only: next_row_id_def)
  ultimately show ?thesis
    by (simp add: fold_max_Max rows_save_snapshot)
qed

lemma store_ok_save_snapshot: "store_ok st \<Longrightarrow> store_ok (save_snapshot now addr b st)"
  by (auto simp: store_ok_def rows_save_snapshot sorted_wrt_append dest: next_row_id_gt)

lemma store_ok_save_all: "store_ok st \<Longrightarrow> store_ok (save_all xs st)"
  by (induction xs st rule: save_all.induct) (simp_all add: store_ok_save_snapshot)

lemma payload_save_all: "map payload (rows (save_all xs st)) = map payload (rows st) @ xs"
  by (induction xs st rule: save_all.induct) (simp_all add: rows_save_snapshot payload_def)

lemma length_save_all: "length (rows (save_all xs st)) = length (rows st) + length xs"
  by (induction xs st rule: save_all.induct) (simp_all add: rows_save_snapshot)

lemma ids_save_all:
  "map row_id (rows (save_all xs st)) =
     map row_id (rows st) @ [next_row_id st..next_row_id st + int (length xs) - 1]"
proof (induction xs st rule: save_all.induct)
  case (1 st)
  then show ?case by simp
next
  case (2 now addr b xs st)
  have "[next_row_id st..next_row_id st + int (length ((now, addr, b) # xs)) - 1] =
        next_row_id st # [next_row_id st + 1..next_row_id st + 1 + int (length xs) - 1]"
    by (subst upto_rec1) (simp_all add: add.commute add.left_commute)
  with 2 show ?case
    by (simp add: rows_save_snapshot next_row_id_save_snapshot)
qed

lemma drop_upto_int: "0 \<le> k \<Longrightarrow> i + k \<le> j + 1 \<Longrightarrow> drop (nat k) [i..j] = [i + k..j]"
proof -
  assume k: "0 \<le> k" and le: "i + k \<le> j + 1"
  show ?thesis
  proof (cases "k = 0")
    case True
    then show ?thesis by simp
  next
    case False
    with k le have "[i..j] = [i..i + k - 1] @ [i + k - 1 + 1..j]"
      by (intro upto_split2) simp_all
    moreover have "length [i..i + k - 1] = nat k" by simp
    ultimately show ?thesis by (simp del: length_upto)
  qed
qed

lemma ids_fresh: "map row_id (rows (save_all xs empty_store)) = [1..int (length xs)]"
  using ids_save_all [of xs empty_store] by (simp add: empty_store_def next_row_id_def)

lemma store_ok_empty: "store_ok empty_store"
  by (simp add: store_ok_def empty_store_def)

lemma cleanup_fresh_ids:
  assumes "0 \<le> limit" "limit < int (length xs)"
  shows "map row_id (rows (cleanup_database limit (save_all xs empty_store))) =
           [int (length xs) - limit + 1..int (length xs)]"
proof -
  let ?st = "save_all xs empty_store"
  have ok: "store_ok ?st" by (simp add: store_ok_save_all store_ok_empty)
  have len: "length (rows ?st) = length xs"
    by (simp add: length_save_all empty_store_def)
  have "rows (cleanup_database limit ?st) = drop (length xs - nat limit) (rows ?st)"
    using cleanup_rows [OF ok assms(1)] assms(2) len by simp
  then have "map row_id (rows (cleanup_database limit ?st)) =
      drop (nat (int (length xs) - limit)) [1..int (length xs)]"
    using assms by (simp add: drop_map [symmetric] ids_fresh nat_diff_distrib')
  also have "\<dots> = [1 + (int (length xs) - limit)..int (length xs)]"
    using assms by (intro drop_upto_int) simp_all
  finally show ?thesis by (simp add: add.commute)
qed


lemma sorted_wrt_take_drop_less:
  assumes "sorted_wrt (<) (map f xs)" "x \<in> set (take k xs)" "y \<in> set (drop k xs)"
  shows "(f x :: int) < f y"
proof -
  have "sorted_wrt (<) (map f (take k xs) @ map f (drop k xs))"
    using assms(1) by (simp flip: map_append)
  then show ?thesis
    using assms(2,3) by (auto simp: sorted_wrt_append)
qed

lemma set_minus_drop: "r \<in> set xs \<Longrightarrow> r \<notin> set (drop k xs) \<Longrightarrow> r \<in> set (take k xs)"
proof -
  assume "r \<in> set xs" and n: "r \<notin> set (drop k xs)"
  then have "r \<in> set (take k xs @ drop k xs)" by simp
  with n show ?thesis by (simp only: set_append Un_iff) simp 
qed

lemma cleanup_fresh_length:
  assumes "0 \<le> limit" "limit < int (length xs)"
  shows "length (rows (cleanup_database limit (save_all xs empty_store))) = nat limit"
proof -
  have "length (map row_id (rows (cleanup_database limit (save_all xs empty_store)))) = nat limit"
    unfolding cleanup_fresh_ids [OF assms] length_upto by simp
  then show ?thesis by simp
qed

lemma cleanup_fresh_Min:
  assumes "0 < limit" "limit < int (length xs)"
  shows "Min (row_id ` set (rows (cleanup_database limit (save_all xs empty_store)))) =
           int (length xs) - limit + 1"
proof -
  have "set (map row_id (rows (cleanup_database limit (save_all xs empty_store)))) =
          {int (length xs) - limit + 1..int (length xs)}"
    using assms by (simp only: cleanup_fresh_ids set_upto less_imp_le)
  moreover have "Min {int (length xs) - limit + 1..int (length xs)} = int (length xs) - limit + 1"
    using assms by (intro Min_eqI) simp_all
  ultimately show ?thesis by (simp only: set_map)
qed

text \<open>
  Claim C1. Let the table be well formed and let any run of appends follow; write \<open>N\<close>
  for the number of rows then, and let the limit be a row count (not negative). If
  \<open>N\<close> exceeds the limit, \<^verbatim>\<open>cleanup_database\<close> leaves exactly \<open>limit\<close> rows: the
  last \<open>limit\<close> rows in id order, every deleted row having a smaller id than every
  surviving one, and, when at least \<open>limit\<close> rows were appended, the survivors are the
  \<open>limit\<close> most recently appended snapshots. If \<open>N\<close> is at most the limit the store
  is unchanged. Appending 10005 snapshots to the empty table and cleaning up with the
  default limit 10000 leaves 10000 rows, the smallest id being 6.
\<close>

theorem cleanup_database_keeps_newest:
  assumes ok: "store_ok st0" and lim: "0 \<le> limit" and st: "st = save_all xs st0"
  shows "(limit < int (length (rows st)) \<longrightarrow>
           (let kept = rows (cleanup_database limit st) in
              int (length kept) = limit \<and>
              kept = drop (length (rows st) - nat limit) (rows st) \<and>
              (\<forall>r\<in>set kept. \<forall>r'\<in>set (rows st) - set kept. row_id r' < row_id r) \<and>
              (limit \<le> int (length xs) \<longrightarrow>
                 map payload kept = drop (length xs - nat limit) xs))) \<and>
         (int (length (rows st)) \<le> limit \<longrightarrow> cleanup_database limit st = st) \<and>
         (\<forall>ys. length ys = 10005 \<longrightarrow>
            (let kept = rows (cleanup_database LIMIT_REGISTROS (save_all ys empty_store)) in
               length kept = 10000 \<and> Min (row_id ` set kept) = 6))"
proof (intro conjI impI allI)
  assume big: "limit < int (length (rows st))"
  have ok': "store_ok st" using ok st by (simp add: store_ok_save_all)
  let ?k = "length (rows st) - nat limit"
  have kept: "rows (cleanup_database limit st) = drop ?k (rows st)"
    using cleanup_rows [OF ok' lim] big by simp
  have len: "int (length (drop ?k (rows st))) = limit"
    using big lim by simp
  have ord: "\<forall>r\<in>set (drop ?k (rows st)). \<forall>r'\<in>set (rows st) - set (drop ?k (rows st)).
               row_id r' < row_id r"
  proof (intro ballI)
    fix r r' assume r: "r \<in> set (drop ?k (rows st))"
      and r': "r' \<in> set (rows st) - set (drop ?k (rows st))"
    from r' have "r' \<in> set (take ?k (rows st))" by (simp add: set_minus_drop)
    with r ok' show "row_id r' < row_id r"
      unfolding store_ok_def by (rule sorted_wrt_take_drop_less [rotated 2])
  qed
  have pay: "limit \<le> int (length xs) \<longrightarrow>
      map payload (drop ?k (rows st)) = drop (length xs - nat limit) xs"
  proof
    assume "limit \<le> int (length xs)"
    then have "nat limit \<le> length xs" using lim by simp
    then have "?k = length (rows st0) + (length xs - nat limit)"
      by (simp add: st length_save_all)
    then have "drop ?k (map payload (rows st0) @ xs) = drop (length xs - nat limit) xs"
      by simp
    then show "map payload (drop ?k (rows st)) = drop (length xs - nat limit) xs"
      by (simp add: drop_map [symmetric] st payload_save_all del: drop_append)
  qed
  show "let kept = rows (cleanup_database limit st) in
          int (length kept) = limit \<and>
          kept = drop (length (rows st) - nat limit) (rows st) \<and>
          (\<forall>r\<in>set kept. \<forall>r'\<in>set (rows st) - set kept. row_id r' < row_id r) \<and>
          (limit \<le> int (length xs) \<longrightarrow>
             map payload kept = drop (length xs - nat limit) xs)"
    unfolding Let_def kept using len ord pay by blast
next
  assume "int (length (rows st)) \<le> limit"
  then show "cleanup_database limit st = st"
    by (simp add: cleanup_database_def)
next
  fix ys :: "(string \<times> string \<times> balances) list"
  assume n: "length ys = 10005"
  have l: "length (rows (cleanup_database LIMIT_REGISTROS (save_all ys empty_store))) = 10000"
    using cleanup_fresh_length [of LIMIT_REGISTROS ys] n by (simp add: LIMIT_REGISTROS_def)
  have m: "Min (row_id ` set (rows (cleanup_database LIMIT_REGISTROS (save_all ys empty_store)))) = 6"
    using cleanup_fresh_Min [of LIMIT_REGISTROS ys] n by (simp add: LIMIT_REGISTROS_def)
  show "let kept = rows (cleanup_database LIMIT_REGISTROS (save_all ys empty_store)) in
          length kept = 10000 \<and> Min (row_id ` set kept) = 6"
    unfolding Let_def using l m by simp
qed


lemma rows_three_polls:
  "map row_id (rows (save_all three_polls empty_store)) = [1, 2, 3]"
  by (simp add: three_polls_def empty_store_def save_snapshot_def next_row_id_def)

text \<open>
  The theorem at three polls into the empty table: limit 2 deletes row 1 and keeps rows
  2 and 3, limit 3 changes nothing, and the run of 10005 appends is instantiated.
\<close>

theorem cleanup_database_keeps_newest_witness:
  "store_ok empty_store \<and> (0::int) \<le> 2 \<and>
   2 < int (length (rows (save_all three_polls empty_store))) \<and>
   2 \<le> int (length three_polls) \<and>
   map row_id (rows (cleanup_database 2 (save_all three_polls empty_store))) = [2, 3] \<and>
   map row_id (rows (save_all three_polls empty_store)) = [1, 2, 3] \<and>
   map payload (rows (cleanup_database 2 (save_all three_polls empty_store))) = drop 1 three_polls \<and>
   int (length (rows (save_all three_polls empty_store))) \<le> 3 \<and>
   cleanup_database 3 (save_all three_polls empty_store) = save_all three_polls empty_store \<and>
   length (replicate 10005 (''t'', ''0x00'', zero_balances)) = 10005 \<and>
   length (rows (cleanup_database LIMIT_REGISTROS
      (save_all (replicate 10005 (''t'', ''0x00'', zero_balances)) empty_store))) = 10000"
proof -
  have ok: "store_ok empty_store"
    by (simp add: store_ok_def empty_store_def)
  have len: "length (rows (save_all three_polls empty_store)) = 3"
    using arg_cong [OF rows_three_polls, of length] by simp
  have l3: "length three_polls = 3" by (simp add: three_polls_def)
  have z2: "(0::int) \<le> 2" and z3: "(0::int) \<le> 3"
    by simp_all
  note a = cleanup_database_keeps_newest [OF ok z2 refl, where xs = three_polls]
  note b = cleanup_database_keeps_newest [OF ok z3 refl, where xs = three_polls]
  have p1: "2 < int (length (rows (save_all three_polls empty_store)))"
    using len by simp
  have p2: "2 \<le> int (length three_polls)"
    using l3 by simp
  have kept: "rows (cleanup_database 2 (save_all three_polls empty_store)) =
                drop (length (rows (save_all three_polls empty_store)) - nat 2)
                  (rows (save_all three_polls empty_store))"
    using a [unfolded Let_def] p1 by blast
  have pay': "map payload (rows (cleanup_database 2 (save_all three_polls empty_store))) =
                drop (length three_polls - nat 2) three_polls"
    using a [unfolded Let_def] p1 p2 by blast
  have pay: "map payload (rows (cleanup_database 2 (save_all three_polls empty_store))) =
                drop 1 three_polls"
    using pay' l3 by simp
  have same: "cleanup_database 3 (save_all three_polls empty_store) = save_all three_polls empty_store"
    using b len by simp
  have big: "length (rows (cleanup_database LIMIT_REGISTROS
      (save_all (replicate 10005 (''t'', ''0x00'', zero_balances)) empty_store))) = 10000"
    using a [unfolded Let_def] by simp
  have ids: "map row_id (rows (cleanup_database 2 (save_all three_polls empty_store))) = [2, 3]"
    unfolding kept drop_map [symmetric] rows_three_polls len by simp
  show ?thesis
    using ok len l3 pay same big ids rows_three_polls by simp
qed

subsection \<open>The three routes\<close>

lemma sort_key_Nil_iff: "sort_key f xs = [] \<longleftrightarrow> xs = []"
proof -
  have "length (sort_key f xs) = length xs" by simp
  then show ?thesis by (simp only: length_0_conv [symmetric])
qed

lemma sorted_le_last: "sorted xs \<Longrightarrow> x \<in> set xs \<Longrightarrow> (x::int) \<le> last xs"
  by (induction xs) auto

lemma take_one_rev: "ys \<noteq> [] \<Longrightarrow> take (Suc 0) (rev ys) = [last ys]"
  by (cases ys rule: rev_cases) simp_all

lemma sort_key_last_max:
  assumes "x \<in> set xs"
  shows "(f x :: int) \<le> f (last (sort_key f xs))"
proof -
  let ?ys = "sort_key f xs"
  have ne: "?ys \<noteq> []" using assms by (auto simp: sort_key_Nil_iff)
  have "f x \<in> set (map f ?ys)" using assms by simp
  moreover have "sorted (map f ?ys)" by simp
  ultimately have "f x \<le> last (map f ?ys)" by (rule sorted_le_last [rotated])
  then show ?thesis using ne by (simp add: last_map)
qed

text \<open>
  Claim C7. On an empty table \<^verbatim>\<open>latest_snapshot\<close> answers 404 with the error body;
  on a table with rows it answers 200 with a row of the table whose id is the highest.
  The function has no other outcome: it neither raises nor invents a row.
\<close>

theorem latest_snapshot_highest_id:
  "(rows st = [] \<longrightarrow> latest_snapshot st = Http404 ''No hay datos aun'') \<and>
   (rows st \<noteq> [] \<longrightarrow>
      (\<exists>r. latest_snapshot st = Http200 r \<and> r \<in> set (rows st) \<and>
           (\<forall>r'\<in>set (rows st). row_id r' \<le> row_id r)))"
proof (intro conjI impI)
  assume "rows st = []"
  then show "latest_snapshot st = Http404 ''No hay datos aun''"
    by (simp add: latest_snapshot_def order_by_id_desc_def sql_limit_def fetchone_def)
next
  assume ne: "rows st \<noteq> []"
  let ?ys = "sort_key row_id (rows st)"
  have ys: "?ys \<noteq> []" using ne by (simp add: sort_key_Nil_iff)
  then have "take (Suc 0) (rev ?ys) = [last ?ys]"
    by (rule take_one_rev)
  then have l: "latest_snapshot st = Http200 (last ?ys)"
    by (simp add: latest_snapshot_def order_by_id_desc_def sql_limit_def fetchone_def)
  have "last ?ys \<in> set ?ys" using ys by (rule last_in_set)
  then have m: "last ?ys \<in> set (rows st)" by simp
  show "\<exists>r. latest_snapshot st = Http200 r \<and> r \<in> set (rows st) \<and>
           (\<forall>r'\<in>set (rows st). row_id r' \<le> row_id r)"
    using l m sort_key_last_max [of _ "rows st" row_id] by blast
qed

text \<open>
  Both cases of the theorem: the empty table, and the table after three polls, where
  the row returned has id 3.
\<close>

theorem latest_snapshot_highest_id_witness:
  "rows empty_store = [] \<and> latest_snapshot empty_store = Http404 ''No hay datos aun'' \<and>
   rows (save_all three_polls empty_store) \<noteq> [] \<and>
   (\<exists>r. latest_snapshot (save_all three_polls empty_store) = Http200 r \<and> row_id r = 3)"
proof -
  have e: "rows empty_store = []" by (simp add: empty_store_def)
  have i: "map row_id (rows (save_all three_polls empty_store)) = [1, 2, 3]"
    by (rule rows_three_polls)
  then have n: "rows (save_all three_polls empty_store) \<noteq> []" by auto
  from latest_snapshot_highest_id [of empty_store] e
  have a: "latest_snapshot empty_store = Http404 ''No hay datos aun''" by blast
  from latest_snapshot_highest_id [of "save_all three_polls empty_store"] n
  obtain r where r: "latest_snapshot (save_all three_polls empty_store) = Http200 r"
    "r \<in> set (rows (save_all three_polls empty_store))"
    "\<forall>r'\<in>set (rows (save_all three_polls empty_store)). row_id r' \<le> row_id r" by blast
  have "row_id r \<in> set (map row_id (rows (save_all three_polls empty_store)))"
    using r(2) by simp
  moreover have "\<forall>x\<in>set (map row_id (rows (save_all three_polls empty_store))). x \<le> row_id r"
    using r(3) by simp
  ultimately have "row_id r = 3" unfolding i by auto
  with e a n r(1) show ?thesis by blast
qed

text \<open>
  Claim C4. On the empty table \<^verbatim>\<open>stats\<close> does not give the no-data answer: the
  aggregate query still has one row, of three \<^verbatim>\<open>NULL\<close>s, the test \<^verbatim>\<open>if row\<close>
  holds, and the answer is 200 with three nulls and a variation of 0.
\<close>

theorem stats_empty_store:
  "stats empty_store =
     Inr (Http200 \<lparr>average_net = None, min_net = None, max_net = None, variation = 0\<rparr>) \<and>
   stats empty_store \<noteq> Inr (Http404 ''No hay datos suficientes'')"
  by (simp add: stats_def stats_window_def empty_store_def order_by_id_desc_def sql_limit_def
      fetchone_def sql_avg_def sql_min_def sql_max_def truthy_def)

text \<open>
  The 404 branch of \<^verbatim>\<open>stats\<close> is never taken, whatever the table holds.
\<close>

lemma stats_never_404: "stats st \<noteq> Inr (Http404 msg)"
  by (simp add: stats_def fetchone_def Let_def split: option.splits)

text \<open>
  Claim C5. On a table whose window has average zero, here the nets \<open>-1\<close> and \<open>1\<close>,
  \<^verbatim>\<open>stats\<close> returns the variation 0, while the maximum minus the minimum is 2: the
  test \<^verbatim>\<open>if avg_net\<close> fails for an average of zero as it does for \<^verbatim>\<open>None\<close>.
\<close>

theorem stats_zero_average:
  "map net (rows (save_all loss_then_gain empty_store)) = [- 1, 1] \<and>
   stats (save_all loss_then_gain empty_store) =
     Inr (Http200 \<lparr>average_net = Some 0, min_net = Some (- 1), max_net = Some 1,
                    variation = 0\<rparr>)"
  by (simp add: loss_then_gain_def stats_def stats_window_def empty_store_def
      order_by_id_desc_def sql_limit_def save_snapshot_def next_row_id_def
      fetchone_def sql_avg_def sql_min_def sql_max_def truthy_def)

lemma history_eq:
  "history st = rev (drop (length (rows st) - 50) (sort_key row_id (rows st)))"
  by (simp add: history_def sql_limit_def order_by_id_desc_def take_rev)

text \<open>
  Claim C8. With ids that are a primary key (no two rows share one), \<^verbatim>\<open>history\<close>
  returns \<open>min 50 N\<close> of the \<open>N\<close> rows (so all of them, or none, when the table holds
  fewer than 50), in strictly descending id order, and every row it leaves out has a
  smaller id than every row it returns: the rows returned are the highest ids, without
  a gap.
\<close>

theorem history_most_recent:
  assumes "distinct (map row_id (rows st))"
  shows "length (history st) = min 50 (length (rows st)) \<and>
         sorted_wrt (\<lambda>a b. row_id a > row_id b) (history st) \<and>
         set (history st) \<subseteq> set (rows st) \<and>
         (\<forall>r\<in>set (history st). \<forall>r'\<in>set (rows st) - set (history st). row_id r' < row_id r)"
proof -
  let ?ys = "sort_key row_id (rows st)"
  let ?k = "length (rows st) - 50"
  have "distinct (map row_id ?ys)"
    using assms by (simp add: distinct_map)
  then have s: "sorted_wrt (<) (map row_id ?ys)"
    by (simp add: strict_sorted_iff)
  have len: "length (history st) = min 50 (length (rows st))"
    by (simp add: history_eq)
  have "sorted_wrt (<) (map row_id (drop ?k ?ys))"
    using s by (simp only: drop_map [symmetric] sorted_wrt_drop)
  then have desc: "sorted_wrt (\<lambda>a b. row_id a > row_id b) (history st)"
    by (simp add: history_eq sorted_wrt_rev sorted_wrt_map)
  have sub: "set (history st) \<subseteq> set (rows st)"
    using set_drop_subset [of ?k ?ys] by (simp add: history_eq)
  have tail: "\<forall>r\<in>set (history st). \<forall>r'\<in>set (rows st) - set (history st). row_id r' < row_id r"
  proof (intro ballI)
    fix r r' assume "r \<in> set (history st)" and r': "r' \<in> set (rows st) - set (history st)"
    then have r: "r \<in> set (drop ?k ?ys)" by (simp add: history_eq)
    from r' have "r' \<in> set ?ys" "r' \<notin> set (drop ?k ?ys)" by (simp_all add: history_eq)
    then have "r' \<in> set (take ?k ?ys)" by (rule set_minus_drop)
    with s show "row_id r' < row_id r" using r by (rule sorted_wrt_take_drop_less)
  qed
  from len desc sub tail show ?thesis by blast
qed

text \<open>
  The theorem at fifty-one polls: fifty rows are returned and one is left out.
\<close>

theorem history_most_recent_witness:
  "distinct (map row_id (rows (save_all fifty_one_polls empty_store))) \<and>
   length (history (save_all fifty_one_polls empty_store)) = 50 \<and>
   set (history (save_all fifty_one_polls empty_store)) \<noteq> {} \<and>
   set (rows (save_all fifty_one_polls empty_store)) -
     set (history (save_all fifty_one_polls empty_store)) \<noteq> {}"
proof -
  let ?st = "save_all fifty_one_polls empty_store"
  have d: "distinct (map row_id (rows ?st))"
    by (simp only: ids_fresh distinct_upto)
  have n: "length (rows ?st) = 51"
    by (simp add: length_save_all empty_store_def fifty_one_polls_def)
  note h = history_most_recent [OF d]
  have l: "length (history ?st) = 50" using h n by simp
  then have ne: "set (history ?st) \<noteq> {}" by auto
  have "card (set (rows ?st)) = 51"
    using d n by (metis distinct_card distinct_map)
  moreover have "card (set (history ?st)) \<le> 50"
    using card_length [of "history ?st"] l by simp
  ultimately have "set (rows ?st) \<noteq> set (history ?st)" by auto
  then have "set (rows ?st) - set (history ?st) \<noteq> {}" using h by blast
  with d l ne show ?thesis by blast
qed

lemma stats_window_eq:
  "stats_window st = map net (take 1000 (rev (sort_key row_id (rows st))))"
  by (simp add: stats_window_def sql_limit_def order_by_id_desc_def)

lemma stats_window_Nil_iff: "stats_window st = [] \<longleftrightarrow> rows st = []"
  by (simp add: stats_window_eq sort_key_Nil_iff)

lemma sql_min_Min: "xs \<noteq> [] \<Longrightarrow> sql_min xs = Some (Min (set xs))"
  by (cases xs) (simp_all add: sql_min_def Min.set_eq_fold del: set_simps)

lemma sql_max_Max: "xs \<noteq> [] \<Longrightarrow> sql_max xs = Some (Max (set xs))"
  by (cases xs) (simp_all add: sql_max_def Max.set_eq_fold del: set_simps)

text \<open>
  What \<^verbatim>\<open>stats\<close> returns on a table with rows: average, minimum and maximum of the
  window, and their difference unless the average is zero.
\<close>

lemma stats_nonempty:
  assumes "rows st \<noteq> []"
  shows "stats st = Inr (Http200
           \<lparr>average_net = Some (sum_list (stats_window st) / of_nat (length (stats_window st))),
            min_net = Some (Min (set (stats_window st))),
            max_net = Some (Max (set (stats_window st))),
            variation =
              (if sum_list (stats_window st) / of_nat (length (stats_window st)) = 0 then 0
               else Max (set (stats_window st)) - Min (set (stats_window st)))\<rparr>)"
proof -
  have w: "stats_window st \<noteq> []" using assms by (simp add: stats_window_Nil_iff)
  show ?thesis
    by (simp add: stats_def fetchone_def Let_def sql_min_Min [OF w] sql_max_Max [OF w]
        sql_avg_def w truthy_def)
qed

section \<open>Properties of binary64 arithmetic\<close>

lemma round_half_even_error: "\<bar>of_int (round_half_even y) - y\<bar> \<le> 1 / 2"
proof -
  have "of_int \<lfloor>y\<rfloor> \<le> y" and "y < of_int \<lfloor>y\<rfloor> + 1"
    by linarith+
  then show ?thesis
    by (auto simp: round_half_even_def Let_def abs_le_iff)
qed

lemma half_power_int: "(2::rat) powi (m - 52) / 2 = 2 powi (m - 53)"
proof -
  have "(2::rat) powi ((m - 53) + 1) = 2 powi (m - 53) * 2 powi 1"
    by (rule power_int_add) simp
  moreover have "(m - 53) + 1 = m - 52" by simp
  ultimately have "(2::rat) powi (m - 52) = 2 powi (m - 53) * 2"
    by (simp only: power_int_1_right)
  then show ?thesis by simp
qed

lemma binary64_error_quantum:
  assumes "x \<noteq> 0"
  shows "\<bar>binary64 x - x\<bar> \<le> 2 powi (max (ilog2 \<bar>x\<bar>) (- 1022) - 53)"
proof -
  let ?q = "(2::rat) powi (max (ilog2 \<bar>x\<bar>) (- 1022) - 52)"
  let ?r = "of_int (round_half_even (\<bar>x\<bar> / ?q)) :: rat"
  have q: "0 < ?q" by simp
  have b: "binary64 x = sgn x * ?r * ?q"
    using assms by (simp add: binary64_def Let_def)
  have "x = sgn x * (\<bar>x\<bar> / ?q) * ?q"
    using q by (simp add: mult_sgn_abs)
  then have "binary64 x - x = sgn x * (?r - \<bar>x\<bar> / ?q) * ?q"
    unfolding b by (simp add: algebra_simps)
  then have "\<bar>binary64 x - x\<bar> = \<bar>?r - \<bar>x\<bar> / ?q\<bar> * ?q"
    using q assms by (simp add: abs_mult abs_sgn_eq)
  also have "\<dots> \<le> (1 / 2) * ?q"
    using round_half_even_error [of "\<bar>x\<bar> / ?q"] q by (intro mult_right_mono) simp_all
  also have "\<dots> = ?q / 2" by simp
  finally show ?thesis by (simp only: half_power_int)
qed

lemma ilog2_le:
  assumes "0 < x"
  shows "2 powi ilog2 x \<le> x"
proof (cases "1 \<le> x")
  case True
  then have p: "0 < \<lfloor>x\<rfloor>" by simp
  then have b: "1 \<le> bitlen \<lfloor>x\<rfloor>"
    using bitlen_eq_zero_iff [of "\<lfloor>x\<rfloor>"] bitlen_nonneg [of "\<lfloor>x\<rfloor>"] by linarith
  have "(2::int) ^ nat (bitlen \<lfloor>x\<rfloor> - 1) \<le> \<lfloor>x\<rfloor>"
    using bitlen_bounds [OF p] by simp
  then have "(of_int (2 ^ nat (bitlen \<lfloor>x\<rfloor> - 1)) :: rat) \<le> of_int \<lfloor>x\<rfloor>"
    by (simp only: of_int_le_iff)
  also have "\<dots> \<le> x" by simp
  finally show ?thesis
    using True b by (simp add: ilog2_def power_int_def)
next
  case False
  with assms have y: "1 < 1 / x" by simp
  let ?m = "\<lceil>1 / x\<rceil> - 1"
  have p: "0 < ?m" using y by (simp add: less_ceiling_iff)
  have "?m < 2 ^ nat (bitlen ?m)"
    using bitlen_bounds [OF p] by simp
  then have "\<lceil>1 / x\<rceil> \<le> 2 ^ nat (bitlen ?m)" by simp
  then have "1 / x \<le> of_int (2 ^ nat (bitlen ?m))"
    by (simp only: ceiling_le_iff)
  then have "1 / x \<le> 2 ^ nat (bitlen ?m)" by simp
  then have "1 / 2 ^ nat (bitlen ?m) \<le> x"
    using assms by (simp add: field_simps)
  moreover have "(2::rat) powi (- bitlen ?m) = 1 / 2 ^ nat (bitlen ?m)"
    using bitlen_nonneg [of ?m] by (simp add: power_int_def field_simps)
  ultimately show ?thesis
    using False by (simp add: ilog2_def)
qed

text \<open>
  The error of one rounding: relative \<open>2\<^sup>-\<^sup>5\<^sup>3\<close>, and absolute \<open>2\<^sup>-\<^sup>1\<^sup>0\<^sup>7\<^sup>5\<close> where the
  spacing is fixed.
\<close>

lemma binary64_error: "\<bar>binary64 x - x\<bar> \<le> \<bar>x\<bar> * 2 powi (- 53) + 2 powi (- 1075)"
proof (cases "x = 0")
  case True
  have "(0::rat) \<le> 2 powi (- 1075)" by (rule zero_le_power_int) simp
  with True show ?thesis by (simp add: binary64_def)
next
  case False
  let ?e = "ilog2 \<bar>x\<bar>"
  have q: "\<bar>binary64 x - x\<bar> \<le> 2 powi (max ?e (- 1022) - 53)"
    using False by (rule binary64_error_quantum)
  have nn: "(0::rat) \<le> 2 powi (- 1075)" "0 \<le> \<bar>x\<bar> * 2 powi (- 53)"
    by (simp_all only: zero_le_power_int zero_le_numeral abs_ge_zero mult_nonneg_nonneg)
  show ?thesis
  proof (cases "- 1022 \<le> ?e")
    case True
    then have "max ?e (- 1022) - 53 = ?e + (- 53)" by simp
    moreover have "(2::rat) powi (?e + (- 53)) = 2 powi ?e * 2 powi (- 53)"
      by (rule power_int_add) simp
    ultimately have "(2::rat) powi (max ?e (- 1022) - 53) = 2 powi ?e * 2 powi (- 53)"
      by (simp only:)
    also have "\<dots> \<le> \<bar>x\<bar> * 2 powi (- 53)"
      using ilog2_le [of "\<bar>x\<bar>"] False
      by (intro mult_right_mono zero_le_power_int) simp_all
    finally show ?thesis using q nn(1) by linarith
  next
    case False
    then have "max ?e (- 1022) - 53 = - 1075" by simp
    then have "(2::rat) powi (max ?e (- 1022) - 53) = 2 powi (- 1075)"
      by (simp only:)
    with q nn(2) show ?thesis by linarith
  qed
qed

lemma two_roundings:
  fixes u t M c f r :: rat
  assumes u: "0 \<le> u" "u \<le> 1" and t: "0 \<le> t" and M: "0 \<le> M" and c: "1 \<le> c"
    and f: "\<bar>f - M\<bar> \<le> u * M + t"
    and r: "\<bar>r - f / c\<bar> \<le> u * \<bar>f / c\<bar> + t"
  shows "\<bar>r - M / c\<bar> \<le> 4 * (u * (M / c)) + 4 * t"
proof -
  let ?X = "M / c"
  have X: "0 \<le> ?X" using M c by simp
  have a0: "0 \<le> u * ?X" using u(1) X by (rule mult_nonneg_nonneg)
  have a1: "u * ?X \<le> ?X" by (rule mult_left_le_one_le [OF X u])
  have "\<bar>f / c - ?X\<bar> = \<bar>f - M\<bar> / c"
    using c by (simp add: diff_divide_distrib [symmetric])
  also have "\<dots> \<le> (u * M + t) / c"
    using f c by (intro divide_right_mono) simp_all
  also have "\<dots> = u * ?X + t / c"
    by (simp add: add_divide_distrib)
  also have "\<dots> \<le> u * ?X + t"
  proof -
    have "t * 1 \<le> t * c" using c t by (rule mult_left_mono)
    then have "t / c \<le> t" using c by (simp add: divide_le_eq)
    then show ?thesis by simp
  qed
  finally have y: "\<bar>f / c - ?X\<bar> \<le> u * ?X + t" .
  then have "\<bar>f / c\<bar> \<le> 2 * ?X + t" using a1 X by linarith
  then have "u * \<bar>f / c\<bar> \<le> u * (2 * ?X + t)"
    using u(1) by (rule mult_left_mono)
  also have "\<dots> = 2 * (u * ?X) + u * t" by (simp add: algebra_simps)
  also have "\<dots> \<le> 2 * (u * ?X) + t"
    using t u by (simp add: mult_left_le_one_le)
  finally have "u * \<bar>f / c\<bar> \<le> 2 * (u * ?X) + t" .
  with r y a0 t show ?thesis by linarith
qed

lemma three_roundings:
  fixes u t m a e d s1 s2 n :: rat
  assumes u: "0 \<le> u" "u \<le> 1" and t: "0 \<le> t"
    and r1: "\<bar>s1 - (m + a)\<bar> \<le> u * \<bar>m + a\<bar> + t"
    and r2: "\<bar>s2 - (s1 + e)\<bar> \<le> u * \<bar>s1 + e\<bar> + t"
    and r3: "\<bar>n - (s2 - d)\<bar> \<le> u * \<bar>s2 - d\<bar> + t"
  shows "\<bar>n - (m + a + e - d)\<bar> \<le> 8 * (u * (\<bar>m\<bar> + \<bar>a\<bar> + \<bar>e\<bar> + \<bar>d\<bar>)) + 8 * t"
proof -
  define S where "S = \<bar>m\<bar> + \<bar>a\<bar> + \<bar>e\<bar> + \<bar>d\<bar>"
  define E1 where "E1 = \<bar>s1 - (m + a)\<bar>"
  define E2 where "E2 = \<bar>s2 - (s1 + e)\<bar>"
  define E3 where "E3 = \<bar>n - (s2 - d)\<bar>"
  define A1 where "A1 = \<bar>m + a\<bar>"
  define A2 where "A2 = \<bar>s1 + e\<bar>"
  define A3 where "A3 = \<bar>s2 - d\<bar>"
  have S: "0 \<le> S" by (simp add: S_def)
  have uS0: "0 \<le> u * S" using u(1) S by (rule mult_nonneg_nonneg)
  have uS1: "u * S \<le> S" by (rule mult_left_le_one_le [OF S u])
  have ut: "u * t \<le> t" by (rule mult_left_le_one_le [OF t u])
  have A1: "A1 \<le> S" unfolding A1_def S_def by linarith
  have A2: "A2 \<le> E1 + S" unfolding A2_def E1_def S_def by linarith
  have A3: "A3 \<le> E2 + E1 + S" unfolding A3_def E2_def E1_def S_def by linarith
  have tot: "\<bar>n - (m + a + e - d)\<bar> \<le> E1 + E2 + E3"
    unfolding E1_def E2_def E3_def by linarith
  have "u * A1 \<le> u * S" using A1 u(1) by (rule mult_left_mono)
  with r1 have e1: "E1 \<le> u * S + t" unfolding E1_def A1_def by linarith
  with A2 uS1 have "A2 \<le> 2 * S + t" by linarith
  then have "u * A2 \<le> u * (2 * S + t)" using u(1) by (rule mult_left_mono)
  also have "\<dots> = 2 * (u * S) + u * t" by (simp add: algebra_simps)
  finally have "u * A2 \<le> 2 * (u * S) + t" using ut by linarith
  with r2 have e2: "E2 \<le> 2 * (u * S) + 2 * t" unfolding E2_def A2_def by linarith
  with e1 A3 uS1 have "A3 \<le> 4 * S + 3 * t" by linarith
  then have "u * A3 \<le> u * (4 * S + 3 * t)" using u(1) by (rule mult_left_mono)
  also have "\<dots> = 4 * (u * S) + 3 * (u * t)" by (simp add: algebra_simps)
  finally have "u * A3 \<le> 4 * (u * S) + 3 * t" using ut by linarith
  with r3 have e3: "E3 \<le> 4 * (u * S) + 4 * t" unfolding E3_def A3_def by linarith
  from tot e1 e2 e3 uS0 t have "\<bar>n - (m + a + e - d)\<bar> \<le> 8 * (u * S) + 8 * t"
    by linarith
  then show ?thesis by (simp only: S_def)
qed

lemma pow2_facts:
  "(0::rat) \<le> 2 powi (- 53)" "(2::rat) powi (- 53) \<le> 1" "(0::rat) \<le> 2 powi (- 1075)"
  "4 * (2::rat) powi (- 53) = 2 powi (- 51)" "8 * (2::rat) powi (- 53) = 2 powi (- 50)"
  "4 * (2::rat) powi (- 1075) = 2 powi (- 1073)" "8 * (2::rat) powi (- 1075) = 2 powi (- 1072)"
proof -
  show "(0::rat) \<le> 2 powi (- 53)" "(0::rat) \<le> 2 powi (- 1075)"
    by (rule zero_le_power_int, simp)+
  have "(2::rat) powi (- 53) \<le> 2 powi 0"
    by (rule power_int_increasing) simp_all
  then show "(2::rat) powi (- 53) \<le> 1" by simp
  have a: "(2::rat) powi (k + 2) = 2 powi k * 4" for k :: int
    using power_int_add [of "2::rat" k 2] by simp
  have b: "(2::rat) powi (k + 3) = 2 powi k * 8" for k :: int
    using power_int_add [of "2::rat" k 3] by simp
  show "4 * (2::rat) powi (- 53) = 2 powi (- 51)" using a [of "- 53"] by simp
  show "8 * (2::rat) powi (- 53) = 2 powi (- 50)" using b [of "- 53"] by simp
  show "4 * (2::rat) powi (- 1075) = 2 powi (- 1073)" using a [of "- 1075"] by simp
  show "8 * (2::rat) powi (- 1075) = 2 powi (- 1072)" using b [of "- 1075"] by simp
qed

lemma field_tolerance:
  "\<bar>float_div (py_float (uint (w::uint256))) 1000000 - of_int (uint w) / 1000000\<bar>
     \<le> of_int (uint w) / 1000000 * 2 powi (- 51) + 2 powi (- 1073)"
proof -
  let ?M = "of_int (uint w) :: rat"
  have M: "0 \<le> ?M"
    using uint_nonnegative [of w] by (simp only: of_int_0_le_iff)
  have f: "\<bar>py_float (uint w) - ?M\<bar> \<le> 2 powi (- 53) * ?M + 2 powi (- 1075)"
    using binary64_error [of ?M] M by (simp add: py_float_def mult.commute)
  have r: "\<bar>float_div (py_float (uint w)) 1000000 - py_float (uint w) / 1000000\<bar>
             \<le> 2 powi (- 53) * \<bar>py_float (uint w) / 1000000\<bar> + 2 powi (- 1075)"
    using binary64_error [of "py_float (uint w) / 1000000"]
    by (simp only: float_div_def mult.commute)
  have "\<bar>float_div (py_float (uint w)) 1000000 - ?M / 1000000\<bar>
          \<le> 4 * (2 powi (- 53) * (?M / 1000000)) + 4 * 2 powi (- 1075)"
    by (rule two_roundings [OF pow2_facts(1,2,3) M _ f r]) simp
  also have "\<dots> = ?M / 1000000 * 2 powi (- 51) + 2 powi (- 1073)"
    by (simp only: pow2_facts(4,6) [symmetric]) (simp only: mult_ac)
  finally show ?thesis .
qed

lemma net_tolerance:
  "\<bar>float_sub (float_add (float_add m a) e) d - (m + a + e - d)\<bar>
     \<le> (\<bar>m\<bar> + \<bar>a\<bar> + \<bar>e\<bar> + \<bar>d\<bar>) * 2 powi (- 50) + 2 powi (- 1072)"
proof -
  let ?s1 = "float_add m a" and ?s2 = "float_add (float_add m a) e"
  have r1: "\<bar>?s1 - (m + a)\<bar> \<le> 2 powi (- 53) * \<bar>m + a\<bar> + 2 powi (- 1075)"
    using binary64_error [of "m + a"] by (simp only: float_add_def mult.commute)
  have r2: "\<bar>?s2 - (?s1 + e)\<bar> \<le> 2 powi (- 53) * \<bar>?s1 + e\<bar> + 2 powi (- 1075)"
    using binary64_error [of "?s1 + e"] by (simp only: float_add_def mult.commute)
  have r3: "\<bar>float_sub ?s2 d - (?s2 - d)\<bar> \<le> 2 powi (- 53) * \<bar>?s2 - d\<bar> + 2 powi (- 1075)"
    using binary64_error [of "?s2 - d"] by (simp only: float_sub_def mult.commute)
  have "\<bar>float_sub ?s2 d - (m + a + e - d)\<bar>
          \<le> 8 * (2 powi (- 53) * (\<bar>m\<bar> + \<bar>a\<bar> + \<bar>e\<bar> + \<bar>d\<bar>)) + 8 * 2 powi (- 1075)"
    by (rule three_roundings [OF pow2_facts(1,2,3) r1 r2 r3])
  also have "\<dots> = (\<bar>m\<bar> + \<bar>a\<bar> + \<bar>e\<bar> + \<bar>d\<bar>) * 2 powi (- 50) + 2 powi (- 1072)"
    by (simp only: pow2_facts(5,7) [symmetric]) (simp only: mult_ac)
  finally show ?thesis .
qed

section \<open>Properties of failover and aggregation\<close>

subsection \<open>One attempt\<close>

lemma try_block_success:
  assumes "to_cs user = Some ua"
    and "reads_succeed chain ua st ms ma ab db es ea"
  shows "try_block to_cs chain user st =
           (ua, Some (usdc ma ab db ea),
            st\<lparr>trace := trace st @ six_reads (provider st) ua ms es\<rparr>)"
  using assms
  by (simp add: try_block_def call_def reads_succeed_def six_reads_def usdc_def Let_def
      eval_nat_numeral)

lemma try_block_SomeD:
  assumes "try_block to_cs chain user st = (ua, Some b, s)"
  shows "\<exists>ms ma ab db es ea.
           to_cs user = Some ua \<and> reads_succeed chain ua st ms ma ab db es ea \<and>
           b = usdc ma ab db ea \<and>
           s = st\<lparr>trace := trace st @ six_reads (provider st) ua ms es\<rparr>"
  using assms
  by (auto simp: try_block_def call_def reads_succeed_def six_reads_def usdc_def Let_def
      eval_nat_numeral split: option.splits prod.splits)

lemma try_block_frame:
  assumes "try_block to_cs chain user st = (ua, r, s)"
  shows "current_rpc_index s = current_rpc_index st \<and> provider s = provider st"
  using assms
  by (auto simp: try_block_def call_def Let_def split: option.splits prod.splits)

lemma try_block_trace:
  assumes "try_block to_cs chain user st = (ua, r, s)"
  shows "\<exists>evs. trace s = trace st @ evs"
  using assms
  by (auto simp: try_block_def call_def Let_def split: option.splits prod.splits)

lemma get_balances_success:
  assumes "to_cs user = Some ua"
    and "reads_succeed chain ua st ms ma ab db es ea"
  shows "get_balances frames to_cs chain eps user st =
           Inr (usdc ma ab db ea,
                st\<lparr>trace := trace st @ six_reads (provider st) ua ms es\<rparr>)"
  using assms by (subst get_balances.simps) (simp add: try_block_success)

lemma except_block_Inr:
  "current_rpc_index s < length eps \<Longrightarrow>
   except_block (Suc k) eps s =
     Inr (s\<lparr>current_rpc_index := (current_rpc_index s + 1) mod length eps,
            provider := eps ! ((current_rpc_index s + 1) mod length eps),
            trace := trace s @ [Sleep 2]\<rparr>)"
  by (auto simp: except_block_def switch_rpc_def Let_def)

lemma except_block_0:
  "current_rpc_index s < length eps \<Longrightarrow> except_block 0 eps s = Inl RecursionError"
  by (simp add: except_block_def)

lemma except_block_trace:
  "except_block frames eps s1 = Inr s2 \<Longrightarrow> trace s2 = trace s1 @ [Sleep 2]"
  by (auto simp: except_block_def switch_rpc_def Let_def split: if_splits)

text \<open>
  While a frame is left, a failed attempt is followed by the same call on the next
  endpoint, after a sleep of two seconds.
\<close>

lemma get_balances_failure_step:
  assumes "try_block to_cs chain user st = (ua, None, s)"
    and "current_rpc_index st < length eps"
  shows "get_balances (Suc k) to_cs chain eps user st =
         get_balances k to_cs chain eps ua
           (s\<lparr>current_rpc_index := (current_rpc_index st + 1) mod length eps,
              provider := eps ! ((current_rpc_index st + 1) mod length eps),
              trace := trace s @ [Sleep 2]\<rparr>)"
proof -
  have i: "current_rpc_index s = current_rpc_index st"
    using try_block_frame [OF assms(1)] by simp
  show ?thesis
    using assms(2) i
    by (subst get_balances.simps) (simp add: assms(1) except_block_Inr)
qed

lemma get_balances_out_of_frames:
  assumes "try_block to_cs chain user st = (ua, None, s)"
    and "current_rpc_index st < length eps"
  shows "get_balances 0 to_cs chain eps user st = Inl RecursionError"
proof -
  have i: "current_rpc_index s = current_rpc_index st"
    using try_block_frame [OF assms(1)] by simp
  show ?thesis
    using assms(2) i
    by (subst get_balances.simps) (simp add: assms(1) except_block_0)
qed

text \<open>
  A dictionary that is returned was computed by one attempt whose six reads all
  succeeded.
\<close>

lemma get_balances_returns_full_reading:
  "get_balances frames to_cs chain eps user st = Inr (b, s) \<Longrightarrow>
   \<exists>u ua s0 ms ma ab db es ea.
      to_cs u = Some ua \<and> reads_succeed chain ua s0 ms ma ab db es ea \<and>
      b = usdc ma ab db ea \<and>
      s = s0\<lparr>trace := trace s0 @ six_reads (provider s0) ua ms es\<rparr>"
proof (induction frames arbitrary: user st)
  case 0
  obtain u r s1 where t: "try_block to_cs chain user st = (u, r, s1)"
    by (cases "try_block to_cs chain user st") auto
  from 0 t have "r = Some b \<and> s1 = s"
    by (subst (asm) get_balances.simps) (auto split: option.splits sum.splits)
  with t try_block_SomeD [of to_cs chain user st u b s] show ?case by blast
next
  case (Suc k)
  obtain u r s1 where t: "try_block to_cs chain user st = (u, r, s1)"
    by (cases "try_block to_cs chain user st") auto
  show ?case
  proof (cases r)
    case (Some b')
    from Suc.prems t Some have "b' = b \<and> s1 = s"
      by (subst (asm) get_balances.simps) simp
    with t Some try_block_SomeD [of to_cs chain user st u b s] show ?thesis by blast
  next
    case None
    from Suc.prems t None obtain s2 where
      "get_balances k to_cs chain eps u s2 = Inr (b, s)"
      by (subst (asm) get_balances.simps) (auto split: sum.splits)
    then show ?thesis by (rule Suc.IH)
  qed
qed

lemma get_balances_trace:
  "get_balances frames to_cs chain eps user st = Inr (b, s) \<Longrightarrow>
   \<exists>pre ua ms es. trace s = trace st @ pre @ six_reads (provider s) ua ms es"
proof (induction frames arbitrary: user st)
  case 0
  obtain u r s1 where t: "try_block to_cs chain user st = (u, r, s1)"
    by (cases "try_block to_cs chain user st") auto
  from 0 t have "try_block to_cs chain user st = (u, Some b, s)"
    by (subst (asm) get_balances.simps) (auto split: option.splits sum.splits)
  from try_block_SomeD [OF this] obtain ms es where
    "s = st\<lparr>trace := trace st @ six_reads (provider st) u ms es\<rparr>" by blast
  then have "trace s = trace st @ [] @ six_reads (provider s) u ms es" by simp
  then show ?case by blast
next
  case (Suc k)
  obtain u r s1 where t: "try_block to_cs chain user st = (u, r, s1)"
    by (cases "try_block to_cs chain user st") auto
  show ?case
  proof (cases r)
    case (Some b')
    from Suc.prems t Some have "try_block to_cs chain user st = (u, Some b, s)"
      by (subst (asm) get_balances.simps) simp
    from try_block_SomeD [OF this] obtain ms es where
      "s = st\<lparr>trace := trace st @ six_reads (provider st) u ms es\<rparr>" by blast
    then have "trace s = trace st @ [] @ six_reads (provider s) u ms es" by simp
    then show ?thesis by blast
  next
    case None
    from try_block_trace [OF t] obtain evs where e1: "trace s1 = trace st @ evs" by blast
    from Suc.prems t None obtain s2 where e: "except_block (Suc k) eps s1 = Inr s2"
      and g: "get_balances k to_cs chain eps u s2 = Inr (b, s)"
      by (subst (asm) get_balances.simps) (auto split: sum.splits)
    from Suc.IH [OF g] obtain pre ua ms es where
      "trace s = trace s2 @ pre @ six_reads (provider s) ua ms es" by blast
    then have "trace s = trace st @ (evs @ Sleep 2 # pre) @ six_reads (provider s) ua ms es"
      using except_block_trace [OF e] e1 by simp
    then show ?thesis by blast
  qed
qed

lemma reads_succeed_mock:
  "reads_succeed mock_chain ua st 100 200000000 50000000 30000000 10 40000000"
  by (simp add: reads_succeed_def mock_chain_def Let_def MORPHO_DEFAULT_def AAVE_USDC_def
      AAVE_DEBT_def EULER_USDC_EARN_def)

lemma usdc_mock:
  "usdc 200000000 50000000 30000000 40000000 =
     \<lparr>morpho = 200, aave = 50, euler = 40, debt = 30, net = 260\<rparr>"
  by code_simp

subsection \<open>Round robin and retrying\<close>

lemma mod_add_returns:
  assumes "i < m"
  shows "((i + k) mod m = i) = (m dvd (k::nat))"
proof
  assume a: "(i + k) mod m = i"
  have "i + k = m * ((i + k) div m) + (i + k) mod m" by simp
  with a have "k = m * ((i + k) div m)" by simp
  then show "m dvd k" by (rule dvdI)
next
  assume "m dvd k"
  then obtain q where "k = m * q" by (auto elim: dvdE)
  with assms show "(i + k) mod m = i" by simp
qed

lemma switch_rpc_Inr:
  "eps \<noteq> [] \<Longrightarrow> switch_rpc eps st =
     Inr (st\<lparr>current_rpc_index := (current_rpc_index st + 1) mod length eps,
              provider := eps ! ((current_rpc_index st + 1) mod length eps)\<rparr>)"
  by (simp add: switch_rpc_def Let_def)

lemma switch_rpc_times_closed:
  "eps \<noteq> [] \<Longrightarrow> switch_rpc_times k eps st =
     Inr (if k = 0 then st
          else st\<lparr>current_rpc_index := (current_rpc_index st + k) mod length eps,
                  provider := eps ! ((current_rpc_index st + k) mod length eps)\<rparr>)"
proof (induction k arbitrary: st)
  case 0
  then show ?case by simp
next
  case (Suc k)
  have "((current_rpc_index st + 1) mod length eps + k) mod length eps =
        (current_rpc_index st + Suc k) mod length eps"
    by (simp add: mod_add_left_eq)
  then show ?case
    using Suc by (simp add: switch_rpc_Inr)
qed

text \<open>
  Claim C6. For a pool of \<open>m \<ge> 1\<close> endpoints and an index inside it, \<^verbatim>\<open>switch_rpc\<close>
  moves the index to \<open>(i + 1) mod m\<close> and makes the endpoint at the new index the
  provider. After \<open>k\<close> calls the index is \<open>(i + k) mod m\<close>; it is the original index
  exactly when \<open>m\<close> divides \<open>k\<close>, and for a pool without repeated endpoints the same holds
  of the active endpoint. For the pool \<open>[a, b, c]\<close> starting at \<open>a\<close>, two calls leave
  \<open>c\<close> active and a third returns to \<open>a\<close>.
\<close>

text \<open>
  Claim C6. For a pool of \<open>m \<ge> 1\<close> endpoints and an index inside it, \<^verbatim>\<open>switch_rpc\<close>
  moves the index to \<open>(i + 1) mod m\<close> and makes the endpoint at the new index the
  provider. After \<open>k\<close> calls the index is \<open>(i + k) mod m\<close>; it is the original index
  exactly when \<open>m\<close> divides \<open>k\<close>, and for a pool without repeated endpoints the same holds
  of the active endpoint. For the pool \<open>[a, b, c]\<close> starting at \<open>a\<close>, two calls leave
  \<open>c\<close> active and a third returns to \<open>a\<close>.
\<close>

theorem switch_rpc_round_robin:
  assumes "eps \<noteq> []" and "current_rpc_index st < length eps"
  shows "switch_rpc eps st =
           Inr (st\<lparr>current_rpc_index := (current_rpc_index st + 1) mod length eps,
                    provider := eps ! ((current_rpc_index st + 1) mod length eps)\<rparr>) \<and>
         (\<exists>st'. switch_rpc_times k eps st = Inr st' \<and>
            current_rpc_index st' = (current_rpc_index st + k) mod length eps \<and>
            (0 < k \<longrightarrow> provider st' = eps ! current_rpc_index st') \<and>
            (current_rpc_index st' = current_rpc_index st \<longleftrightarrow> length eps dvd k) \<and>
            (distinct eps \<and> provider st = eps ! current_rpc_index st \<longrightarrow>
               (provider st' = provider st \<longleftrightarrow> length eps dvd k))) \<and>
         (eps = [a, b, c] \<and> current_rpc_index st = 0 \<and> provider st = a \<longrightarrow>
            (\<exists>s2 s3. switch_rpc_times 2 eps st = Inr s2 \<and> provider s2 = c \<and>
                      switch_rpc_times 3 eps st = Inr s3 \<and> provider s3 = a))"
proof (intro conjI)
  show "switch_rpc eps st =
           Inr (st\<lparr>current_rpc_index := (current_rpc_index st + 1) mod length eps,
                    provider := eps ! ((current_rpc_index st + 1) mod length eps)\<rparr>)"
    using assms(1) by (rule switch_rpc_Inr)
next
  let ?i = "current_rpc_index st" and ?m = "length eps"
  let ?st' = "if k = 0 then st
              else st\<lparr>current_rpc_index := (?i + k) mod ?m, provider := eps ! ((?i + k) mod ?m)\<rparr>"
  have run: "switch_rpc_times k eps st = Inr ?st'"
    using assms(1) by (rule switch_rpc_times_closed)
  have idx: "current_rpc_index ?st' = (?i + k) mod ?m"
    using assms(2) by simp
  have prov: "0 < k \<longrightarrow> provider ?st' = eps ! current_rpc_index ?st'"
    by simp
  have ret: "current_rpc_index ?st' = ?i \<longleftrightarrow> ?m dvd k"
    unfolding idx using assms(2) by (rule mod_add_returns)
  have dist: "distinct eps \<and> provider st = eps ! ?i \<longrightarrow>
               (provider ?st' = provider st \<longleftrightarrow> ?m dvd k)"
  proof (intro impI, elim conjE)
    assume d: "distinct eps" and p: "provider st = eps ! ?i"
    show "provider ?st' = provider st \<longleftrightarrow> ?m dvd k"
    proof (cases "k = 0")
      case True
      then show ?thesis by simp
    next
      case False
      have lt: "(?i + k) mod ?m < ?m" using assms(1) by simp
      from False have "provider ?st' = eps ! ((?i + k) mod ?m)" by simp
      then have "provider ?st' = provider st \<longleftrightarrow> (?i + k) mod ?m = ?i"
        using d p lt assms(2) by (simp add: nth_eq_iff_index_eq)
      then show ?thesis using mod_add_returns [OF assms(2)] by simp
    qed
  qed
  from run idx prov ret dist
  show "\<exists>st'. switch_rpc_times k eps st = Inr st' \<and>
            current_rpc_index st' = (?i + k) mod ?m \<and>
            (0 < k \<longrightarrow> provider st' = eps ! current_rpc_index st') \<and>
            (current_rpc_index st' = ?i \<longleftrightarrow> ?m dvd k) \<and>
            (distinct eps \<and> provider st = eps ! ?i \<longrightarrow>
               (provider st' = provider st \<longleftrightarrow> ?m dvd k))"
    by blast
next
  show "eps = [a, b, c] \<and> current_rpc_index st = 0 \<and> provider st = a \<longrightarrow>
            (\<exists>s2 s3. switch_rpc_times 2 eps st = Inr s2 \<and> provider s2 = c \<and>
                      switch_rpc_times 3 eps st = Inr s3 \<and> provider s3 = a)"
    by (simp add: switch_rpc_times_closed)
qed

text \<open>
  The theorem at the pool of three endpoints.
\<close>

text \<open>
  The theorem at the pool of three endpoints.
\<close>

theorem switch_rpc_round_robin_witness:
  "abc_pool \<noteq> [] \<and> current_rpc_index abc_state < length abc_pool \<and>
   distinct abc_pool \<and> provider abc_state = abc_pool ! current_rpc_index abc_state \<and>
   switch_rpc abc_pool abc_state = Inr \<lparr>current_rpc_index = 1, provider = ''B'', trace = []\<rparr> \<and>
   (\<exists>s2 s3. switch_rpc_times 2 abc_pool abc_state = Inr s2 \<and> provider s2 = ''C'' \<and>
             switch_rpc_times 3 abc_pool abc_state = Inr s3 \<and> provider s3 = ''A'')"
proof -
  have n: "abc_pool \<noteq> []" and i: "current_rpc_index abc_state < length abc_pool"
    and d: "distinct abc_pool" and p: "provider abc_state = abc_pool ! current_rpc_index abc_state"
    by (simp_all add: abc_pool_def abc_state_def)
  note t = switch_rpc_round_robin [OF n i, of _ "''A''" "''B''" "''C''"]
  have one: "switch_rpc abc_pool abc_state = Inr \<lparr>current_rpc_index = 1, provider = ''B'', trace = []\<rparr>"
    using t by (simp add: abc_pool_def abc_state_def)
  have e: "abc_pool = [''A'', ''B'', ''C''] \<and> current_rpc_index abc_state = 0 \<and> provider abc_state = ''A''"
    by (simp add: abc_pool_def abc_state_def)
  have two: "\<exists>s2 s3. switch_rpc_times 2 abc_pool abc_state = Inr s2 \<and> provider s2 = ''C'' \<and>
             switch_rpc_times 3 abc_pool abc_state = Inr s3 \<and> provider s3 = ''A''"
    using t e by blast
  from n i d p one two show ?thesis by blast
qed

lemma try_block_dead:
  assumes "\<forall>t p r. chain t p r = None"
  shows "\<exists>ua s. try_block to_cs chain user st = (ua, None, s)"
proof -
  obtain u r s1 where t: "try_block to_cs chain user st = (u, r, s1)"
    by (cases "try_block to_cs chain user st") auto
  show ?thesis
  proof (cases r)
    case None
    with t show ?thesis by blast
  next
    case (Some b)
    with t have "try_block to_cs chain user st = (u, Some b, s1)" by simp
    from try_block_SomeD [OF this] assms show ?thesis
      by (auto simp: reads_succeed_def Let_def)
  qed
qed

lemma get_balances_dead_chain:
  assumes "\<forall>t p r. chain t p r = None" and "current_rpc_index st < length eps"
  shows "get_balances frames to_cs chain eps user st = Inl RecursionError"
  using assms(2)
proof (induction frames arbitrary: user st)
  case 0
  from try_block_dead [OF assms(1)] obtain ua s where
    "try_block to_cs chain user st = (ua, None, s)" by blast
  then show ?case using 0 by (rule get_balances_out_of_frames)
next
  case (Suc k)
  from try_block_dead [OF assms(1)] obtain ua s where
    t: "try_block to_cs chain user st = (ua, None, s)" by blast
  have "(current_rpc_index st + 1) mod length eps < length eps"
    using Suc.prems by (auto intro: mod_less_divisor)
  then show ?case
    unfolding get_balances_failure_step [OF t Suc.prems]
    by (intro Suc.IH) simp
qed

lemma try_block_flaky_fails:
  assumes "length (trace st) < 2 * n"
  shows "try_block Some (flaky n) USER st =
           (USER, None,
            st\<lparr>trace := trace st @ [Read (provider st) (BalanceOf MORPHO_DEFAULT USER)]\<rparr>)"
  using assms by (simp add: try_block_def call_def flaky_def)

lemma get_balances_flaky:
  assumes "length (trace st) = 2 * k" and "n = k + d" and "current_rpc_index st < 5"
    and "d \<le> frames"
  shows "\<exists>s. get_balances frames Some (flaky n) RPC_ENDPOINTS USER st =
               Inr (usdc 200000000 50000000 30000000 40000000, s) \<and>
             current_rpc_index s = (current_rpc_index st + d) mod 5"
  using assms
proof (induction d arbitrary: k st frames)
  case 0
  then have "reads_succeed (flaky n) USER st 100 200000000 50000000 30000000 10 40000000"
    using reads_succeed_mock [of USER st] by (simp add: reads_succeed_def flaky_def Let_def)
  from get_balances_success [where to_cs = Some and user = USER, OF refl this] 0(3)
  show ?case by simp
next
  case (Suc d)
  from Suc.prems(4) obtain f where f: "frames = Suc f" and df: "d \<le> f"
    by (cases frames) auto
  let ?s1 = "st\<lparr>trace := trace st @ [Read (provider st) (BalanceOf MORPHO_DEFAULT USER)]\<rparr>"
  have t: "try_block Some (flaky n) USER st = (USER, None, ?s1)"
    using Suc.prems(1,2) by (intro try_block_flaky_fails) simp
  have m: "length RPC_ENDPOINTS = 5" by (simp add: RPC_ENDPOINTS_def)
  let ?s2 = "?s1\<lparr>current_rpc_index := (current_rpc_index st + 1) mod length RPC_ENDPOINTS,
              provider := RPC_ENDPOINTS ! ((current_rpc_index st + 1) mod length RPC_ENDPOINTS),
              trace := trace ?s1 @ [Sleep 2]\<rparr>"
  have step: "get_balances frames Some (flaky n) RPC_ENDPOINTS USER st =
              get_balances f Some (flaky n) RPC_ENDPOINTS USER ?s2"
    unfolding f using Suc.prems(3) by (intro get_balances_failure_step [OF t]) (simp add: m)
  have "\<exists>s. get_balances f Some (flaky n) RPC_ENDPOINTS USER ?s2 =
               Inr (usdc 200000000 50000000 30000000 40000000, s) \<and>
             current_rpc_index s = (current_rpc_index ?s2 + d) mod 5"
    using Suc.prems df by (intro Suc.IH [of _ "Suc k"]) (simp_all add: m)
  then show ?case
    unfolding step by (simp add: m mod_add_left_eq)
qed

lemma get_balances_flaky_out_of_frames:
  assumes "length (trace st) = 2 * k" and "n = k + frames + 1" and "current_rpc_index st < 5"
  shows "get_balances frames Some (flaky n) RPC_ENDPOINTS USER st = Inl RecursionError"
  using assms
proof (induction frames arbitrary: k st)
  case 0
  let ?s1 = "st\<lparr>trace := trace st @ [Read (provider st) (BalanceOf MORPHO_DEFAULT USER)]\<rparr>"
  have t: "try_block Some (flaky n) USER st = (USER, None, ?s1)"
    using 0(1,2) by (intro try_block_flaky_fails) simp
  show ?case
    using 0(3) by (intro get_balances_out_of_frames [OF t]) (simp add: RPC_ENDPOINTS_def)
next
  case (Suc f)
  let ?s1 = "st\<lparr>trace := trace st @ [Read (provider st) (BalanceOf MORPHO_DEFAULT USER)]\<rparr>"
  have t: "try_block Some (flaky n) USER st = (USER, None, ?s1)"
    using Suc.prems(1,2) by (intro try_block_flaky_fails) simp
  have m: "length RPC_ENDPOINTS = 5" by (simp add: RPC_ENDPOINTS_def)
  let ?s2 = "?s1\<lparr>current_rpc_index := (current_rpc_index st + 1) mod length RPC_ENDPOINTS,
              provider := RPC_ENDPOINTS ! ((current_rpc_index st + 1) mod length RPC_ENDPOINTS),
              trace := trace ?s1 @ [Sleep 2]\<rparr>"
  have step: "get_balances (Suc f) Some (flaky n) RPC_ENDPOINTS USER st =
              get_balances f Some (flaky n) RPC_ENDPOINTS USER ?s2"
    using Suc.prems(3) by (intro get_balances_failure_step [OF t]) (simp add: m)
  show ?case
    unfolding step using Suc.prems by (intro Suc.IH [of _ "Suc k"]) (simp_all add: m)
qed

text \<open>
  The rounding is visible in the values: for the raw results 100000, 200000 and 0 and the
  raw debt 300000 the field \<^verbatim>\<open>morpho\<close> is the float nearest to one tenth, and
  \<^verbatim>\<open>net\<close> is \<open>2\<^sup>-\<^sup>5\<^sup>4\<close>, not zero.
\<close>

lemma usdc_rounding_example:
  "morpho (usdc 100000 200000 300000 0) = 3602879701896397 / 2 ^ 55 \<and>
   net (usdc 100000 200000 300000 0) = 1 / 2 ^ 54"
  by code_simp

text \<open>
  Claim C3. The retries are not without bound: they end when the call stack is used up.
  Whatever the number of frames the interpreter still allows, a call of
  \<^verbatim>\<open>get_balances\<close> against a pool in which every read fails ends with
  \<^verbatim>\<open>RecursionError\<close> reaching the caller. So does a call against a pool that fails one
  time more than there are frames, although the same pool is read successfully by a call
  that has one frame more: the number of attempts is bounded by the stack, not by the
  pool.
\<close>

theorem get_balances_recursion_error:
  "get_balances frames Some dead_chain RPC_ENDPOINTS USER initial_state = Inl RecursionError \<and>
   get_balances frames Some (flaky (Suc frames)) RPC_ENDPOINTS USER initial_state =
     Inl RecursionError \<and>
   (\<exists>b s. get_balances (Suc frames) Some (flaky (Suc frames)) RPC_ENDPOINTS USER initial_state =
      Inr (b, s))"
proof (intro conjI)
  have i: "current_rpc_index initial_state < length RPC_ENDPOINTS"
    by (simp add: initial_state_def RPC_ENDPOINTS_def)
  have d: "\<forall>t p r. dead_chain t p r = None" by (simp add: dead_chain_def)
  show "get_balances frames Some dead_chain RPC_ENDPOINTS USER initial_state = Inl RecursionError"
    using d i by (rule get_balances_dead_chain)
  show "get_balances frames Some (flaky (Suc frames)) RPC_ENDPOINTS USER initial_state =
     Inl RecursionError"
    by (rule get_balances_flaky_out_of_frames [of _ 0]) (simp_all add: initial_state_def)
  show "\<exists>b s. get_balances (Suc frames) Some (flaky (Suc frames)) RPC_ENDPOINTS USER initial_state =
      Inr (b, s)"
    using get_balances_flaky [of initial_state 0 "Suc frames" "Suc frames" "Suc frames"]
    by (auto simp: initial_state_def)
qed

subsection \<open>The claims about \<^verbatim>\<open>get_balances\<close>\<close>

text \<open>
  Claim C2. For every address that \<^verbatim>\<open>to_checksum_address\<close> accepts and every six
  successful reads, \<^verbatim>\<open>get_balances\<close> returns a dictionary whose fields
  \<^verbatim>\<open>morpho\<close>, \<^verbatim>\<open>aave\<close>, \<^verbatim>\<open>euler\<close> and \<^verbatim>\<open>debt\<close> are the raw results
  \<^verbatim>\<open>morpho_assets\<close>, \<^verbatim>\<open>aave_balance\<close>, \<^verbatim>\<open>euler_assets\<close> and
  \<^verbatim>\<open>debt_balance\<close> divided by the float 1000000, and whose \<^verbatim>\<open>net\<close> is
  \<open>morpho + aave + euler - debt\<close>, every operation being the binary64 one. Each field
  is within a relative error of \<open>2\<^sup>-\<^sup>5\<^sup>1\<close> of the exact quotient, and \<^verbatim>\<open>net\<close> is within
  \<open>2\<^sup>-\<^sup>5\<^sup>0\<close> times the sum of the four fields of their exact combination (up to an
  absolute error of \<open>2\<^sup>-\<^sup>1\<^sup>0\<^sup>7\<^sup>2\<close>, far below the smallest normal float). The raw results 200000000,
  50000000, 30000000 and 40000000 give exactly 200, 50, 30, 40 and the net 260.
\<close>

theorem get_balances_scales_by_million:
  assumes "to_checksum_address user_address = Some ua"
    and "reads_succeed chain ua st morpho_shares morpho_assets aave_balance debt_balance
           euler_shares euler_assets"
  shows "\<exists>b s. get_balances frames to_checksum_address chain eps user_address st = Inr (b, s) \<and>
           morpho b = float_div (py_float (uint morpho_assets)) 1000000 \<and>
           aave b = float_div (py_float (uint aave_balance)) 1000000 \<and>
           euler b = float_div (py_float (uint euler_assets)) 1000000 \<and>
           debt b = float_div (py_float (uint debt_balance)) 1000000 \<and>
           net b = float_sub (float_add (float_add (morpho b) (aave b)) (euler b)) (debt b) \<and>
           \<bar>morpho b - of_int (uint morpho_assets) / 1000000\<bar>
             \<le> of_int (uint morpho_assets) / 1000000 * 2 powi (- 51) + 2 powi (- 1073) \<and>
           \<bar>aave b - of_int (uint aave_balance) / 1000000\<bar>
             \<le> of_int (uint aave_balance) / 1000000 * 2 powi (- 51) + 2 powi (- 1073) \<and>
           \<bar>euler b - of_int (uint euler_assets) / 1000000\<bar>
             \<le> of_int (uint euler_assets) / 1000000 * 2 powi (- 51) + 2 powi (- 1073) \<and>
           \<bar>debt b - of_int (uint debt_balance) / 1000000\<bar>
             \<le> of_int (uint debt_balance) / 1000000 * 2 powi (- 51) + 2 powi (- 1073) \<and>
           \<bar>net b - (morpho b + aave b + euler b - debt b)\<bar>
             \<le> (\<bar>morpho b\<bar> + \<bar>aave b\<bar> + \<bar>euler b\<bar> + \<bar>debt b\<bar>) * 2 powi (- 50) +
                 2 powi (- 1072) \<and>
           (morpho_assets = 200000000 \<and> aave_balance = 50000000 \<and>
            debt_balance = 30000000 \<and> euler_assets = 40000000 \<longrightarrow>
              b = \<lparr>morpho = 200, aave = 50, euler = 40, debt = 30, net = 260\<rparr>)"
proof -
  let ?b = "usdc morpho_assets aave_balance debt_balance euler_assets"
  have g: "get_balances frames to_checksum_address chain eps user_address st =
          Inr (?b, st\<lparr>trace := trace st @
                          six_reads (provider st) ua morpho_shares euler_shares\<rparr>)"
    using assms by (rule get_balances_success)
  have m: "morpho ?b = float_div (py_float (uint morpho_assets)) 1000000"
    and a: "aave ?b = float_div (py_float (uint aave_balance)) 1000000"
    and e: "euler ?b = float_div (py_float (uint euler_assets)) 1000000"
    and d: "debt ?b = float_div (py_float (uint debt_balance)) 1000000"
    and n: "net ?b = float_sub (float_add (float_add (morpho ?b) (aave ?b)) (euler ?b)) (debt ?b)"
    by (simp_all add: usdc_def)
  have tm: "\<bar>morpho ?b - of_int (uint morpho_assets) / 1000000\<bar>
             \<le> of_int (uint morpho_assets) / 1000000 * 2 powi (- 51) + 2 powi (- 1073)"
    unfolding m by (rule field_tolerance)
  have ta: "\<bar>aave ?b - of_int (uint aave_balance) / 1000000\<bar>
             \<le> of_int (uint aave_balance) / 1000000 * 2 powi (- 51) + 2 powi (- 1073)"
    unfolding a by (rule field_tolerance)
  have te: "\<bar>euler ?b - of_int (uint euler_assets) / 1000000\<bar>
             \<le> of_int (uint euler_assets) / 1000000 * 2 powi (- 51) + 2 powi (- 1073)"
    unfolding e by (rule field_tolerance)
  have td: "\<bar>debt ?b - of_int (uint debt_balance) / 1000000\<bar>
             \<le> of_int (uint debt_balance) / 1000000 * 2 powi (- 51) + 2 powi (- 1073)"
    unfolding d by (rule field_tolerance)
  have tn: "\<bar>net ?b - (morpho ?b + aave ?b + euler ?b - debt ?b)\<bar>
             \<le> (\<bar>morpho ?b\<bar> + \<bar>aave ?b\<bar> + \<bar>euler ?b\<bar> + \<bar>debt ?b\<bar>) * 2 powi (- 50) +
                 2 powi (- 1072)"
    unfolding n by (rule net_tolerance)
  have sc: "morpho_assets = 200000000 \<and> aave_balance = 50000000 \<and>
            debt_balance = 30000000 \<and> euler_assets = 40000000 \<longrightarrow>
              ?b = \<lparr>morpho = 200, aave = 50, euler = 40, debt = 30, net = 260\<rparr>"
    using usdc_mock by blast
  from g m a e d n tm ta te td tn sc show ?thesis by blast
qed

text \<open>
  The theorem at the sample node.
\<close>

theorem get_balances_scales_by_million_witness:
  "Some USER = Some USER \<and>
   reads_succeed mock_chain USER initial_state 100 200000000 50000000 30000000 10 40000000 \<and>
   (\<exists>s. get_balances recursion_limit Some mock_chain RPC_ENDPOINTS USER initial_state =
          Inr (\<lparr>morpho = 200, aave = 50, euler = 40, debt = 30, net = 260\<rparr>, s))"
proof -
  have r: "reads_succeed mock_chain USER initial_state 100 200000000 50000000 30000000 10 40000000"
    by (rule reads_succeed_mock)
  from get_balances_scales_by_million [where to_checksum_address = Some and user_address = USER,
      OF refl r, of recursion_limit RPC_ENDPOINTS]
  obtain b s where "get_balances recursion_limit Some mock_chain RPC_ENDPOINTS USER initial_state =
      Inr (b, s)" and "(200000000::uint256) = 200000000 \<and> (50000000::uint256) = 50000000 \<and>
            (30000000::uint256) = 30000000 \<and> (40000000::uint256) = 40000000 \<longrightarrow>
              b = \<lparr>morpho = 200, aave = 50, euler = 40, debt = 30, net = 260\<rparr>"
    by blast
  then have "\<exists>s. get_balances recursion_limit Some mock_chain RPC_ENDPOINTS USER initial_state =
          Inr (\<lparr>morpho = 200, aave = 50, euler = 40, debt = 30, net = 260\<rparr>, s)"
    by auto
  with r show ?thesis by simp
qed

text \<open>
  Claim C10. When the six reads of the first attempt succeed, \<^verbatim>\<open>get_balances\<close>
  returns with \<^verbatim>\<open>current_rpc_index\<close> and \<^verbatim>\<open>provider\<close> as they were.
\<close>

theorem get_balances_success_keeps_rpc:
  assumes "to_checksum_address user_address = Some ua"
    and "reads_succeed chain ua st morpho_shares morpho_assets aave_balance debt_balance
           euler_shares euler_assets"
  shows "\<exists>b s. get_balances frames to_checksum_address chain eps user_address st = Inr (b, s) \<and>
           current_rpc_index s = current_rpc_index st \<and> provider s = provider st"
proof -
  have "get_balances frames to_checksum_address chain eps user_address st =
          Inr (usdc morpho_assets aave_balance debt_balance euler_assets,
               st\<lparr>trace := trace st @
                    six_reads (provider st) ua morpho_shares euler_shares\<rparr>)"
    using assms by (rule get_balances_success)
  then show ?thesis by simp
qed

text \<open>
  The theorem at the sample node: the first endpoint is still the active one.
\<close>

theorem get_balances_success_keeps_rpc_witness:
  "Some USER = Some USER \<and>
   reads_succeed mock_chain USER initial_state 100 200000000 50000000 30000000 10 40000000 \<and>
   (\<exists>b s. get_balances recursion_limit Some mock_chain RPC_ENDPOINTS USER initial_state =
             Inr (b, s) \<and>
      current_rpc_index s = 0 \<and> provider s = ''https://arbitrum-one-rpc.publicnode.com'')"
proof -
  have r: "reads_succeed mock_chain USER initial_state 100 200000000 50000000 30000000 10 40000000"
    by (rule reads_succeed_mock)
  from get_balances_success_keeps_rpc [where to_checksum_address = Some and user_address = USER,
      OF refl r, of recursion_limit RPC_ENDPOINTS]
  have "\<exists>b s. get_balances recursion_limit Some mock_chain RPC_ENDPOINTS USER initial_state =
             Inr (b, s) \<and>
      current_rpc_index s = 0 \<and> provider s = ''https://arbitrum-one-rpc.publicnode.com''"
    by (simp add: initial_state_def RPC_ENDPOINTS_def)
  with r show ?thesis by simp
qed

text \<open>
  Claim C9, as stated, fails: against the sample node the call returns after six reads,
  not five.
\<close>

theorem get_balances_five_reads_counterexample:
  "read_count (get_balances recursion_limit Some mock_chain RPC_ENDPOINTS USER initial_state) =
     Some 6 \<and>
   read_count (get_balances recursion_limit Some mock_chain RPC_ENDPOINTS USER initial_state) \<noteq>
     Some 5"
proof -
  have "get_balances recursion_limit Some mock_chain RPC_ENDPOINTS USER initial_state =
          Inr (usdc 200000000 50000000 30000000 40000000,
               initial_state\<lparr>trace := trace initial_state @
                  six_reads (provider initial_state) USER 100 10\<rparr>)"
    using refl reads_succeed_mock by (rule get_balances_success)
  then show ?thesis
    by (simp add: read_count_def six_reads_def initial_state_def)
qed

text \<open>
  Claim C9, amended. A call whose reads all succeed performs exactly six reads, in this
  order: Morpho \<^verbatim>\<open>balanceOf\<close>, Morpho \<^verbatim>\<open>convertToAssets\<close> of the shares returned,
  Aave USDC \<^verbatim>\<open>balanceOf\<close>, Aave debt \<^verbatim>\<open>balanceOf\<close>, Euler \<^verbatim>\<open>balanceOf\<close>, Euler
  \<^verbatim>\<open>convertToAssets\<close> of the shares returned. A call that returns a dictionary after
  failed attempts ends with these six reads, all sent to the endpoint active on
  return.
\<close>

theorem get_balances_six_reads:
  "(to_checksum_address user_address = Some ua \<and>
    reads_succeed chain ua st morpho_shares morpho_assets aave_balance debt_balance
      euler_shares euler_assets \<longrightarrow>
      (\<exists>b s. get_balances frames to_checksum_address chain eps user_address st = Inr (b, s) \<and>
         trace s = trace st @
           [Read (provider st) (BalanceOf MORPHO_DEFAULT ua),
            Read (provider st) (ConvertToAssets MORPHO_DEFAULT morpho_shares),
            Read (provider st) (BalanceOf AAVE_USDC ua),
            Read (provider st) (BalanceOf AAVE_DEBT ua),
            Read (provider st) (BalanceOf EULER_USDC_EARN ua),
            Read (provider st) (ConvertToAssets EULER_USDC_EARN euler_shares)])) \<and>
   (\<forall>b s. get_balances frames to_checksum_address chain eps user_address st = Inr (b, s) \<longrightarrow>
      (\<exists>pre a ms es. trace s = trace st @ pre @
           [Read (provider s) (BalanceOf MORPHO_DEFAULT a),
            Read (provider s) (ConvertToAssets MORPHO_DEFAULT ms),
            Read (provider s) (BalanceOf AAVE_USDC a),
            Read (provider s) (BalanceOf AAVE_DEBT a),
            Read (provider s) (BalanceOf EULER_USDC_EARN a),
            Read (provider s) (ConvertToAssets EULER_USDC_EARN es)]))"
proof (intro conjI impI allI)
  assume "to_checksum_address user_address = Some ua \<and>
    reads_succeed chain ua st morpho_shares morpho_assets aave_balance debt_balance
      euler_shares euler_assets"
  then have "get_balances frames to_checksum_address chain eps user_address st =
          Inr (usdc morpho_assets aave_balance debt_balance euler_assets,
               st\<lparr>trace := trace st @
                    six_reads (provider st) ua morpho_shares euler_shares\<rparr>)"
    by (intro get_balances_success) simp_all
  then show "\<exists>b s. get_balances frames to_checksum_address chain eps user_address st = Inr (b, s) \<and>
         trace s = trace st @
           [Read (provider st) (BalanceOf MORPHO_DEFAULT ua),
            Read (provider st) (ConvertToAssets MORPHO_DEFAULT morpho_shares),
            Read (provider st) (BalanceOf AAVE_USDC ua),
            Read (provider st) (BalanceOf AAVE_DEBT ua),
            Read (provider st) (BalanceOf EULER_USDC_EARN ua),
            Read (provider st) (ConvertToAssets EULER_USDC_EARN euler_shares)]"
    by (simp add: six_reads_def)
next
  fix b s
  assume "get_balances frames to_checksum_address chain eps user_address st = Inr (b, s)"
  from get_balances_trace [OF this]
  show "\<exists>pre a ms es. trace s = trace st @ pre @
           [Read (provider s) (BalanceOf MORPHO_DEFAULT a),
            Read (provider s) (ConvertToAssets MORPHO_DEFAULT ms),
            Read (provider s) (BalanceOf AAVE_USDC a),
            Read (provider s) (BalanceOf AAVE_DEBT a),
            Read (provider s) (BalanceOf EULER_USDC_EARN a),
            Read (provider s) (ConvertToAssets EULER_USDC_EARN es)]"
    by (simp add: six_reads_def)
qed

text \<open>
  The theorem at the sample node, and at the pool whose first attempt fails.
\<close>

theorem get_balances_six_reads_witness:
  "Some USER = Some USER \<and>
   reads_succeed mock_chain USER initial_state 100 200000000 50000000 30000000 10 40000000 \<and>
   (\<exists>b s. get_balances recursion_limit Some mock_chain RPC_ENDPOINTS USER initial_state =
             Inr (b, s) \<and>
      trace s =
        [Read (RPC_ENDPOINTS ! 0) (BalanceOf MORPHO_DEFAULT USER),
         Read (RPC_ENDPOINTS ! 0) (ConvertToAssets MORPHO_DEFAULT 100),
         Read (RPC_ENDPOINTS ! 0) (BalanceOf AAVE_USDC USER),
         Read (RPC_ENDPOINTS ! 0) (BalanceOf AAVE_DEBT USER),
         Read (RPC_ENDPOINTS ! 0) (BalanceOf EULER_USDC_EARN USER),
         Read (RPC_ENDPOINTS ! 0) (ConvertToAssets EULER_USDC_EARN 10)]) \<and>
   (\<exists>b s. get_balances recursion_limit Some (flaky 1) RPC_ENDPOINTS USER initial_state =
             Inr (b, s) \<and>
      (\<exists>pre a ms es. trace s = pre @
           [Read (provider s) (BalanceOf MORPHO_DEFAULT a),
            Read (provider s) (ConvertToAssets MORPHO_DEFAULT ms),
            Read (provider s) (BalanceOf AAVE_USDC a),
            Read (provider s) (BalanceOf AAVE_DEBT a),
            Read (provider s) (BalanceOf EULER_USDC_EARN a),
            Read (provider s) (ConvertToAssets EULER_USDC_EARN es)]))"
proof -
  have r: "reads_succeed mock_chain USER initial_state 100 200000000 50000000 30000000 10 40000000"
    by (rule reads_succeed_mock)
  have e: "Some USER = Some USER \<and>
    reads_succeed mock_chain USER initial_state 100 200000000 50000000 30000000 10 40000000"
    using r by simp
  note a = get_balances_six_reads [where to_checksum_address = Some and user_address = USER
      and chain = mock_chain and st = initial_state and eps = RPC_ENDPOINTS
      and frames = recursion_limit]
  have one: "\<exists>b s. get_balances recursion_limit Some mock_chain RPC_ENDPOINTS USER initial_state =
             Inr (b, s) \<and>
      trace s =
        [Read (RPC_ENDPOINTS ! 0) (BalanceOf MORPHO_DEFAULT USER),
         Read (RPC_ENDPOINTS ! 0) (ConvertToAssets MORPHO_DEFAULT 100),
         Read (RPC_ENDPOINTS ! 0) (BalanceOf AAVE_USDC USER),
         Read (RPC_ENDPOINTS ! 0) (BalanceOf AAVE_DEBT USER),
         Read (RPC_ENDPOINTS ! 0) (BalanceOf EULER_USDC_EARN USER),
         Read (RPC_ENDPOINTS ! 0) (ConvertToAssets EULER_USDC_EARN 10)]"
    using a [THEN conjunct1, rule_format, OF e] by (simp add: initial_state_def)
  from get_balances_flaky [of initial_state 0 1 1 recursion_limit]
  obtain s where g: "get_balances recursion_limit Some (flaky 1) RPC_ENDPOINTS USER initial_state =
       Inr (usdc 200000000 50000000 30000000 40000000, s)"
    by (auto simp: initial_state_def recursion_limit_def)
  note b = get_balances_six_reads [where to_checksum_address = Some and user_address = USER
      and chain = "flaky 1" and st = initial_state and eps = RPC_ENDPOINTS
      and frames = recursion_limit]
  from b [THEN conjunct2, rule_format, OF g]
  have two: "\<exists>pre a ms es. trace s = pre @
           [Read (provider s) (BalanceOf MORPHO_DEFAULT a),
            Read (provider s) (ConvertToAssets MORPHO_DEFAULT ms),
            Read (provider s) (BalanceOf AAVE_USDC a),
            Read (provider s) (BalanceOf AAVE_DEBT a),
            Read (provider s) (BalanceOf EULER_USDC_EARN a),
            Read (provider s) (ConvertToAssets EULER_USDC_EARN es)]"
    by (simp add: initial_state_def)
  from r one g two show ?thesis by blast
qed

end
